theory Spec2Isabelle
  imports Main "HOL-Library.AList"
begin

section \<open>JavaScript values, objects and errors\<close>

text \<open>
  The values that cross the interface of \<^verbatim>\<open>MobileServiceSyncContext\<close>. An object is
  held by reference: \<open>VRef r\<close> names the object at address \<open>r\<close> of the heap, so that an
  assignment to a property of an argument is visible to the caller. Numbers are
  integers here; no operation of the sync context computes with them.
\<close>

datatype jsval =
    VUndefined
  | VNull
  | VBool bool
  | VNum int
  | VStr string
  | VRef nat

type_synonym obj = "(string \<times> jsval) list"

type_synonym heap = "nat \<Rightarrow> obj"

text \<open>The action strings \<^verbatim>\<open>'insert'\<close>, \<^verbatim>\<open>'update'\<close> and \<^verbatim>\<open>'delete'\<close>.\<close>

datatype action = A_insert | A_update | A_delete

text \<open>
  A pending operation of the operation table, and the logging operation that the
  operation table manager hands back to be written in the caller's batch.
\<close>

record pending_op =
  op_tableName :: jsval
  op_recordId :: jsval
  op_action :: action
  op_logicalOrder :: nat

datatype logging_op =
    LogWrite pending_op
  | LogRemove jsval jsval

text \<open>The entries of the array passed to \<^verbatim>\<open>store.executeBatch\<close>.\<close>

datatype batch_entry =
    BUpsert jsval jsval
  | BDelete jsval jsval
  | BLog logging_op

text \<open>
  Every \<^verbatim>\<open>throw\<close> and every rejected promise is a value of this type.
  \<open>NotInitializedError\<close> is the error of \<^verbatim>\<open>validateInitialization\<close>,
  \<open>StoreNotSetError\<close> the one thrown where \<^verbatim>\<open>!store\<close> holds,
  \<open>RecordExistsError\<close> carries the \<^verbatim>\<open>id\<close> of the existing record and the table name,
  \<open>ValidationError\<close> is what a failed check of \<^verbatim>\<open>Validate\<close> throws, and
  \<open>TypeError\<close> is the engine's error for a property access on \<^verbatim>\<open>null\<close> or
  \<^verbatim>\<open>undefined\<close>. The remaining errors come from the collaborators.
\<close>

datatype error =
    NotInitializedError
  | StoreNotSetError
  | RecordExistsError jsval jsval
  | ValidationError
  | TypeError
  | RecordNotFoundError
  | OperationConflictError
  | UnspecifiedMergeError
  | PushError
  | CollaboratorError string

type_synonym handle = nat

text \<open>
  The log of the calls made on the collaborators, in the order in which they are made.
  It is not a variable of the program: it records which calls an operation performs.
\<close>

datatype call =
    CUuid string
  | CCreateOperationTableManager jsval
  | COperationTableInitialize handle jsval
  | CCreatePullManager jsval "handle option"
  | CCreatePushManager jsval "handle option"
  | CCreatePurgeManager jsval
  | CPullInitialize handle
  | CLookup jsval jsval jsval jsval
  | CRead jsval jsval
  | CGetLoggingOperation handle jsval action jsval
  | CExecuteBatch jsval "batch_entry list"
  | CPull handle jsval jsval jsval
  | CPush handle jsval
  | CPurge handle jsval jsval

section \<open>The state of a sync context\<close>

text \<open>
  The variables closed over by the constructor (\<^verbatim>\<open>isInitialized\<close>, \<^verbatim>\<open>store\<close>,
  the four managers), the \<^verbatim>\<open>pushHandler\<close> property of the context object, the heap
  of the caller's objects, the state \<open>world\<close> of the collaborators (the contents of the
  local store, of the remote service, of the id generator) and the call log.
  A manager variable is \<open>None\<close> while it is \<^verbatim>\<open>undefined\<close>.
\<close>

record 'x state =
  isInitialized :: bool
  store :: jsval
  operationTableManager :: "handle option"
  pullManager :: "handle option"
  pushManager :: "handle option"
  purgeManager :: "handle option"
  pushHandler :: jsval
  heap :: heap
  world :: 'x
  calls :: "call list"

text \<open>
  The state right after \<^verbatim>\<open>new MobileServiceSyncContext(client)\<close>, for a client that
  passes \<^verbatim>\<open>Validate.notNull\<close>: the constructor throws otherwise and there is no context.
  The client and the two task runners are fixed for the life of the context and are not
  part of the state.
\<close>

definition new_context :: "heap \<Rightarrow> 'x \<Rightarrow> 'x state" where
  "new_context h w =
     \<lparr> isInitialized = False, store = VUndefined, operationTableManager = None,
       pullManager = None, pushManager = None, purgeManager = None,
       pushHandler = VUndefined, heap = h, world = w, calls = [] \<rparr>"

section \<open>Promises\<close>

text \<open>
  An asynchronous result is a function of the state that settles either with an error
  (rejected, \<open>Inl\<close>) or with a value (resolved, \<open>Inr\<close>), and returns the state it leaves.
  \<open>andThen\<close> is \<^verbatim>\<open>promise.then(f)\<close> with a success handler only: a rejection skips \<open>f\<close>.
  A \<^verbatim>\<open>throw\<close> inside a handler is a rejection.
\<close>

type_synonym ('x, 'a) promise = "'x state \<Rightarrow> (error + 'a) \<times> 'x state"

definition resolve :: "'a \<Rightarrow> ('x, 'a) promise" where
  "resolve a s = (Inr a, s)"

definition reject :: "error \<Rightarrow> ('x, 'a) promise" where
  "reject e s = (Inl e, s)"

definition andThen :: "('x, 'a) promise \<Rightarrow> ('a \<Rightarrow> ('x, 'b) promise) \<Rightarrow> ('x, 'b) promise" where
  "andThen p f s = (case p s of (Inl e, s') \<Rightarrow> (Inl e, s') | (Inr a, s') \<Rightarrow> f a s')"

definition settle :: "error + 'a \<Rightarrow> ('x, 'a) promise" where
  "settle r s = (r, s)"

text \<open>
  Modelled from the spec: \<^verbatim>\<open>Utilities/taskRunner\<close> is not among the sources. Section 4.1:
  \<^verbatim>\<open>run(unitOfWork)\<close> returns a deferred result that settles with that work's outcome,
  the units of one runner executing one at a time in submission order. The calls of
  this theory are made one after the other, each on the state the previous one left,
  so running a unit is running it.
\<close>

definition taskRunner_run :: "('x, 'a) promise \<Rightarrow> ('x, 'a) promise" where
  "taskRunner_run task = task"

text \<open>
  Modelled from the spec: \<^verbatim>\<open>Platform.async\<close> is not among the sources. Section 9: the
  result of a callback-based function is a value that succeeded or failed; an
  exception thrown by the function is the failure.
\<close>

definition Platform_async :: "('x, 'a) promise \<Rightarrow> ('x, 'a) promise" where
  "Platform_async body = body"

section \<open>Helpers of the language and of the utility modules\<close>

text \<open>JavaScript truthiness, as used by \<^verbatim>\<open>!store\<close>.\<close>

fun truthy :: "jsval \<Rightarrow> bool" where
  "truthy VUndefined = False"
| "truthy VNull = False"
| "truthy (VBool b) = b"
| "truthy (VNum n) = (n \<noteq> 0)"
| "truthy (VStr s) = (s \<noteq> [])"
| "truthy (VRef r) = True"

fun is_object :: "jsval \<Rightarrow> bool" where
  "is_object (VRef r) = True"
| "is_object v = False"

text \<open>
  Modelled from the spec: \<^verbatim>\<open>Utilities/Extensions\<close> is not among the sources. Section 4.3
  has insert assign an id "if absent": \<^verbatim>\<open>_.isNull\<close> holds of \<^verbatim>\<open>null\<close> and of
  \<^verbatim>\<open>undefined\<close>.
\<close>

fun isNull :: "jsval \<Rightarrow> bool" where
  "isNull VUndefined = True"
| "isNull VNull = True"
| "isNull v = False"

text \<open>
  Reading a property: a \<^verbatim>\<open>TypeError\<close> on \<^verbatim>\<open>null\<close> and \<^verbatim>\<open>undefined\<close>,
  \<^verbatim>\<open>undefined\<close> for a property the object does not have and for the properties
  of a primitive value (none of those read here exists on a primitive).
\<close>

fun get_prop :: "heap \<Rightarrow> jsval \<Rightarrow> string \<Rightarrow> error + jsval" where
  "get_prop h VUndefined k = Inl TypeError"
| "get_prop h VNull k = Inl TypeError"
| "get_prop h (VRef r) k = Inr (case map_of (h r) k of None \<Rightarrow> VUndefined | Some v \<Rightarrow> v)"
| "get_prop h v k = Inr VUndefined"

text \<open>
  Writing a property: a \<^verbatim>\<open>TypeError\<close> on \<^verbatim>\<open>null\<close> and \<^verbatim>\<open>undefined\<close>;
  the file is not in strict mode, so the assignment to a property of a primitive
  value is silently dropped.
\<close>

fun set_prop :: "heap \<Rightarrow> jsval \<Rightarrow> string \<Rightarrow> jsval \<Rightarrow> error + heap" where
  "set_prop h VUndefined k v = Inl TypeError"
| "set_prop h VNull k v = Inl TypeError"
| "set_prop h (VRef r) k v = Inr (h(r := AList.update k v (h r)))"
| "set_prop h u k v = Inr h"

text \<open>
  Modelled from the spec: \<^verbatim>\<open>Utilities/Validate\<close> is not among the sources. Section 7:
  a \<open>ValidationError\<close> for a malformed table name, id or query argument. Each check
  is what its name says. The sync context applies \<^verbatim>\<open>isString\<close> together with
  \<^verbatim>\<open>notNullOrEmpty\<close>, and \<^verbatim>\<open>isObject\<close> together with \<^verbatim>\<open>notNull\<close>, and all
  of them fail with the same error, so only the conjunction of each pair is observable.
  What a valid id is, is not said anywhere: \<^verbatim>\<open>Validate.isValidId\<close> is a parameter,
  the field \<open>isValidId\<close> of the collaborators below.
\<close>

definition check :: "bool \<Rightarrow> error + unit" where
  "check b = (if b then Inr () else Inl ValidationError)"

text \<open>Modelled from the spec: \<^verbatim>\<open>Validate.isString\<close>, the value is a string.\<close>

fun Validate_isString :: "jsval \<Rightarrow> error + unit" where
  "Validate_isString (VStr s) = Inr ()"
| "Validate_isString v = Inl ValidationError"

text \<open>
  Modelled from the spec: \<^verbatim>\<open>Validate.notNullOrEmpty\<close>, the value is not null, not
  undefined and not the empty string.
\<close>

fun Validate_notNullOrEmpty :: "jsval \<Rightarrow> error + unit" where
  "Validate_notNullOrEmpty VUndefined = Inl ValidationError"
| "Validate_notNullOrEmpty VNull = Inl ValidationError"
| "Validate_notNullOrEmpty (VStr s) = check (s \<noteq> [])"
| "Validate_notNullOrEmpty v = Inr ()"

text \<open>Modelled from the spec: \<^verbatim>\<open>Validate.notNull\<close>, the value is not null and not undefined.\<close>

definition Validate_notNull :: "jsval \<Rightarrow> error + unit" where
  "Validate_notNull v = check (\<not> isNull v)"

text \<open>Modelled from the spec: \<^verbatim>\<open>Validate.isObject\<close>, the value is an object.\<close>

definition Validate_isObject :: "jsval \<Rightarrow> error + unit" where
  "Validate_isObject v = check (is_object v)"

text \<open>Modelled from the spec: \<^verbatim>\<open>Validate.isBool\<close>, the value is a boolean.\<close>

fun Validate_isBool :: "jsval \<Rightarrow> error + unit" where
  "Validate_isBool (VBool b) = Inr ()"
| "Validate_isBool v = Inl ValidationError"

section \<open>The collaborators\<close>

text \<open>
  The modules the sync context calls and that are not among the sources, and the store,
  which is an object of the caller: each is a parameter. A collaborator reads the heap
  and its own state \<open>'x\<close>; a call that can write returns the new state with its outcome.
  \<^verbatim>\<open>store.lookup\<close> and \<^verbatim>\<open>store.read\<close> are reads (section 6: they return a record or
  \<^verbatim>\<open>undefined\<close>, and an array of records), so they return an outcome only; \<open>None\<close> is
  \<^verbatim>\<open>undefined\<close>. No collaborator assigns to the objects of the caller: the heap changes
  only where the sync context itself assigns. The factories are synchronous and may throw; those of the pull and
  push managers are given the values of \<^verbatim>\<open>store\<close> and of
  \<^verbatim>\<open>operationTableManager\<close> (the client and the task runner are fixed for a context).
\<close>

record 'x collaborators =
  isValidId :: "jsval \<Rightarrow> bool"
  uuid_v4 :: "'x \<Rightarrow> string \<times> 'x"
  createOperationTableManager :: "jsval \<Rightarrow> error + handle"
  createPullManager :: "jsval \<Rightarrow> handle option \<Rightarrow> error + handle"
  createPushManager :: "jsval \<Rightarrow> handle option \<Rightarrow> error + handle"
  createPurgeManager :: "jsval \<Rightarrow> error + handle"
  operations_initialize :: "handle \<Rightarrow> jsval \<Rightarrow> heap \<Rightarrow> 'x \<Rightarrow> (error + unit) \<times> 'x"
  getLoggingOperation :: "handle \<Rightarrow> jsval \<Rightarrow> action \<Rightarrow> jsval \<Rightarrow> heap \<Rightarrow> 'x \<Rightarrow> (error + logging_op) \<times> 'x"
  pull_initialize :: "handle \<Rightarrow> heap \<Rightarrow> 'x \<Rightarrow> (error + unit) \<times> 'x"
  pullManager_pull :: "handle \<Rightarrow> jsval \<Rightarrow> jsval \<Rightarrow> jsval \<Rightarrow> heap \<Rightarrow> 'x \<Rightarrow> (error + unit) \<times> 'x"
  pushManager_push :: "handle \<Rightarrow> jsval \<Rightarrow> heap \<Rightarrow> 'x \<Rightarrow> (error + unit) \<times> 'x"
  purgeManager_purge :: "handle \<Rightarrow> jsval \<Rightarrow> jsval \<Rightarrow> heap \<Rightarrow> 'x \<Rightarrow> (error + unit) \<times> 'x"
  store_lookup :: "jsval \<Rightarrow> jsval \<Rightarrow> jsval \<Rightarrow> jsval \<Rightarrow> heap \<Rightarrow> 'x \<Rightarrow> error + obj option"
  store_read :: "jsval \<Rightarrow> jsval \<Rightarrow> heap \<Rightarrow> 'x \<Rightarrow> error + obj list"
  store_executeBatch :: "jsval \<Rightarrow> batch_entry list \<Rightarrow> heap \<Rightarrow> 'x \<Rightarrow> (error + unit) \<times> 'x"

text \<open>\<^verbatim>\<open>Validate.isValidId(value)\<close>.\<close>

definition Validate_isValidId :: "'x collaborators \<Rightarrow> jsval \<Rightarrow> error + unit" where
  "Validate_isValidId d v = check (isValidId d v)"

text \<open>Each call on a collaborator is entered in the call log, then made.\<close>

definition logged :: "call \<Rightarrow> 'x state \<Rightarrow> 'x state" where
  "logged c s = s\<lparr>calls := calls s @ [c]\<rparr>"

definition call_write :: "call \<Rightarrow> (heap \<Rightarrow> 'x \<Rightarrow> (error + 'a) \<times> 'x) \<Rightarrow> ('x, 'a) promise" where
  "call_write c f s = (case f (heap s) (world s) of (r, w) \<Rightarrow> (r, (logged c s)\<lparr>world := w\<rparr>))"

definition call_read :: "call \<Rightarrow> (heap \<Rightarrow> 'x \<Rightarrow> error + 'a) \<Rightarrow> ('x, 'a) promise" where
  "call_read c f s = (f (heap s) (world s), logged c s)"

definition call_factory :: "call \<Rightarrow> error + 'a \<Rightarrow> ('x, 'a) promise" where
  "call_factory c r s = (r, logged c s)"

text \<open>
  A method call on a manager variable, read when the call is made: a
  \<^verbatim>\<open>TypeError\<close> while the variable is \<^verbatim>\<open>undefined\<close>.
\<close>

definition on_manager :: "('x state \<Rightarrow> handle option) \<Rightarrow> (handle \<Rightarrow> ('x, 'a) promise) \<Rightarrow> ('x, 'a) promise" where
  "on_manager var f s = (case var s of None \<Rightarrow> (Inl TypeError, s) | Some mgr \<Rightarrow> f mgr s)"

text \<open>
  A method call on \<^verbatim>\<open>store\<close>: a \<^verbatim>\<open>TypeError\<close> while the variable holds
  \<^verbatim>\<open>undefined\<close> (it is only ever assigned an object).
\<close>

definition on_store :: "(jsval \<Rightarrow> ('x, 'a) promise) \<Rightarrow> ('x, 'a) promise" where
  "on_store f s = (if is_object (store s) then f (store s) s else (Inl TypeError, s))"

section \<open>MobileServiceSyncContext\<close>

text \<open>\<^verbatim>\<open>validateInitialization\<close>: throws if the sync context is not initialized.\<close>

definition validateInitialization :: "('x, unit) promise" where
  "validateInitialization s =
     (if \<not> isInitialized s then (Inl NotInitializedError, s) else (Inr (), s))"

text \<open>\<^verbatim>\<open>if (!store) throw new Error('MobileServiceSyncContext not initialized')\<close>.\<close>

definition check_store :: "('x, unit) promise" where
  "check_store s = (if \<not> truthy (store s) then (Inl StoreNotSetError, s) else (Inr (), s))"

text \<open>The expression \<^verbatim>\<open>instance.id\<close> and the assignment \<^verbatim>\<open>instance.id = v\<close>.\<close>

definition read_id :: "jsval \<Rightarrow> ('x, jsval) promise" where
  "read_id instance s = (get_prop (heap s) instance ''id'', s)"

definition assign_id :: "jsval \<Rightarrow> jsval \<Rightarrow> ('x, unit) promise" where
  "assign_id instance v s =
     (case set_prop (heap s) instance ''id'' v of
        Inl e \<Rightarrow> (Inl e, s)
      | Inr h \<Rightarrow> (Inr (), s\<lparr>heap := h\<rparr>))"

text \<open>\<^verbatim>\<open>uuid.v4()\<close>.\<close>

definition call_uuid :: "'x collaborators \<Rightarrow> ('x, jsval) promise" where
  "call_uuid d s =
     (case uuid_v4 d (world s) of (u, w) \<Rightarrow> (Inr (VStr u), (logged (CUuid u) s)\<lparr>world := w\<rparr>))"

text \<open>The property \<^verbatim>\<open>id\<close> of a record returned by the store.\<close>

definition record_id :: "obj \<Rightarrow> jsval" where
  "record_id r = (case map_of r ''id'' of None \<Rightarrow> VUndefined | Some v \<Rightarrow> v)"

text \<open>
  \<^verbatim>\<open>upsertWithLogging(tableName, instance, action, shouldOverwrite)\<close>: the four
  validations, the check of \<^verbatim>\<open>store\<close>, then the chain
  lookup, check of the existing record, logging operation, batch, instance.
  \<open>shouldOverwrite\<close> is \<open>False\<close> where the caller omits the argument.
\<close>

definition upsertWithLogging ::
  "'x collaborators \<Rightarrow> jsval \<Rightarrow> jsval \<Rightarrow> action \<Rightarrow> bool \<Rightarrow> ('x, jsval) promise" where
  "upsertWithLogging d tableName instance act shouldOverwrite =
     andThen (settle (Validate_isString tableName)) (\<lambda>_.
     andThen (settle (Validate_notNullOrEmpty tableName)) (\<lambda>_.
     andThen (settle (Validate_notNull instance)) (\<lambda>_.
     andThen (read_id instance) (\<lambda>i.
     andThen (settle (Validate_isValidId d i)) (\<lambda>_.
     andThen check_store (\<lambda>_.
     andThen (read_id instance) (\<lambda>i.
     andThen (on_store (\<lambda>st. call_read (CLookup st tableName i (VBool True))
                                     (store_lookup d st tableName i (VBool True))))
       (\<lambda>existingRecord.
     andThen (case existingRecord of
                None \<Rightarrow> resolve ()
              | Some r \<Rightarrow> if \<not> shouldOverwrite
                         then reject (RecordExistsError (record_id r) tableName)
                         else resolve ()) (\<lambda>_.
     andThen (on_manager operationTableManager
                (\<lambda>m. call_write (CGetLoggingOperation m tableName act instance)
                                 (getLoggingOperation d m tableName act instance)))
       (\<lambda>loggingOperation.
     andThen (on_store (\<lambda>st. call_write
                (CExecuteBatch st [BUpsert tableName instance, BLog loggingOperation])
                (store_executeBatch d st [BUpsert tableName instance, BLog loggingOperation])))
       (\<lambda>_.
     resolve instance)))))))))))"

text \<open>\<^verbatim>\<open>this.insert(tableName, instance)\<close>.\<close>

definition insert_instance :: "'x collaborators \<Rightarrow> jsval \<Rightarrow> jsval \<Rightarrow> ('x, jsval) promise" where
  "insert_instance d tableName instance =
     taskRunner_run (
       andThen validateInitialization (\<lambda>_.
       andThen (read_id instance) (\<lambda>i.
       andThen (if isNull i
                then andThen (call_uuid d) (\<lambda>u. assign_id instance u)
                else resolve ()) (\<lambda>_.
       upsertWithLogging d tableName instance A_insert False))))"

text \<open>\<^verbatim>\<open>this.update(tableName, instance)\<close>.\<close>

definition update :: "'x collaborators \<Rightarrow> jsval \<Rightarrow> jsval \<Rightarrow> ('x, jsval) promise" where
  "update d tableName instance =
     taskRunner_run (
       andThen validateInitialization (\<lambda>_.
       upsertWithLogging d tableName instance A_update True))"

text \<open>\<^verbatim>\<open>this.lookup(tableName, id, suppressRecordNotFoundError)\<close>.\<close>

definition lookup ::
  "'x collaborators \<Rightarrow> jsval \<Rightarrow> jsval \<Rightarrow> jsval \<Rightarrow> ('x, obj option) promise" where
  "lookup d tableName i suppressRecordNotFoundError =
     andThen (Platform_async (
       andThen validateInitialization (\<lambda>_.
       andThen (settle (Validate_isString tableName)) (\<lambda>_.
       andThen (settle (Validate_notNullOrEmpty tableName)) (\<lambda>_.
       andThen (settle (Validate_isValidId d i)) (\<lambda>_.
       check_store)))))) (\<lambda>_.
     on_store (\<lambda>st. call_read (CLookup st tableName i suppressRecordNotFoundError)
                               (store_lookup d st tableName i suppressRecordNotFoundError)))"

text \<open>\<^verbatim>\<open>this.read(query)\<close>.\<close>

definition read :: "'x collaborators \<Rightarrow> jsval \<Rightarrow> ('x, obj list) promise" where
  "read d query =
     andThen (Platform_async (resolve ())) (\<lambda>_.
     andThen validateInitialization (\<lambda>_.
     andThen (settle (Validate_notNull query)) (\<lambda>_.
     andThen (settle (Validate_isObject query)) (\<lambda>_.
     on_store (\<lambda>st. call_read (CRead st query) (store_read d st query))))))"

text \<open>\<^verbatim>\<open>this.del(tableName, instance)\<close>.\<close>

definition del :: "'x collaborators \<Rightarrow> jsval \<Rightarrow> jsval \<Rightarrow> ('x, unit) promise" where
  "del d tableName instance =
     taskRunner_run (
       andThen validateInitialization (\<lambda>_.
       andThen (settle (Validate_isString tableName)) (\<lambda>_.
       andThen (settle (Validate_notNullOrEmpty tableName)) (\<lambda>_.
       andThen (settle (Validate_notNull instance)) (\<lambda>_.
       andThen (read_id instance) (\<lambda>i.
       andThen (settle (Validate_isValidId d i)) (\<lambda>_.
       andThen check_store (\<lambda>_.
       andThen (on_manager operationTableManager
                  (\<lambda>m. call_write (CGetLoggingOperation m tableName A_delete instance)
                                   (getLoggingOperation d m tableName A_delete instance)))
         (\<lambda>loggingOperation.
       andThen (read_id instance) (\<lambda>i.
       on_store (\<lambda>st. call_write
                  (CExecuteBatch st [BDelete tableName i, BLog loggingOperation])
                  (store_executeBatch d st [BDelete tableName i, BLog loggingOperation]))))))))))))"

text \<open>\<^verbatim>\<open>this.pull(query, queryId, settings)\<close>.\<close>

definition pull :: "'x collaborators \<Rightarrow> jsval \<Rightarrow> jsval \<Rightarrow> jsval \<Rightarrow> ('x, unit) promise" where
  "pull d query queryId settings =
     taskRunner_run (
       andThen validateInitialization (\<lambda>_.
       on_manager pullManager
         (\<lambda>m. call_write (CPull m query queryId settings)
                          (pullManager_pull d m query queryId settings))))"

text \<open>\<^verbatim>\<open>this.push()\<close>, which hands over \<^verbatim>\<open>this.pushHandler\<close>.\<close>

definition push :: "'x collaborators \<Rightarrow> ('x, unit) promise" where
  "push d =
     taskRunner_run (
       andThen validateInitialization (\<lambda>_.
       on_manager pushManager
         (\<lambda>m s. call_write (CPush m (pushHandler s))
                            (pushManager_push d m (pushHandler s)) s)))"

text \<open>\<^verbatim>\<open>this.purge(query, forcePurge)\<close>.\<close>

definition purge :: "'x collaborators \<Rightarrow> jsval \<Rightarrow> jsval \<Rightarrow> ('x, unit) promise" where
  "purge d query forcePurge =
     taskRunner_run (
       andThen (settle (Validate_isObject query)) (\<lambda>_.
       andThen (settle (Validate_notNull query)) (\<lambda>_.
       andThen (if \<not> isNull forcePurge
                then settle (Validate_isBool forcePurge)
                else resolve ()) (\<lambda>_.
       andThen validateInitialization (\<lambda>_.
       on_manager purgeManager
         (\<lambda>m. call_write (CPurge m query forcePurge)
                          (purgeManager_purge d m query forcePurge)))))))"

text \<open>An assignment to a variable of the context.\<close>

definition assign :: "('x state \<Rightarrow> 'x state) \<Rightarrow> ('x, unit) promise" where
  "assign f s = (Inr (), f s)"

text \<open>
  \<^verbatim>\<open>this.initialize(localStore)\<close>: a chain of five steps, each run only if the
  one before it resolved. The variables assigned by a step keep their values when a
  later step fails.
\<close>

definition initialize :: "'x collaborators \<Rightarrow> jsval \<Rightarrow> ('x, unit) promise" where
  "initialize d localStore =
     andThen (andThen (andThen (andThen
       (Platform_async (
          andThen (settle (Validate_isObject localStore)) (\<lambda>_.
          andThen (settle (Validate_notNull localStore)) (\<lambda>_.
          call_factory (CCreateOperationTableManager localStore)
                       (createOperationTableManager d localStore)))))
       (\<lambda>opManager.
          andThen (assign (\<lambda>s. s\<lparr>operationTableManager := Some opManager\<rparr>)) (\<lambda>_.
          on_manager operationTableManager
            (\<lambda>m. call_write (COperationTableInitialize m localStore)
                             (operations_initialize d m localStore)))))
       (\<lambda>_.
          andThen (assign (\<lambda>s. s\<lparr>store := localStore\<rparr>)) (\<lambda>_.
          andThen (\<lambda>s. call_factory (CCreatePullManager (store s) (operationTableManager s))
                          (createPullManager d (store s) (operationTableManager s)) s) (\<lambda>pl.
          andThen (assign (\<lambda>s. s\<lparr>pullManager := Some pl\<rparr>)) (\<lambda>_.
          andThen (\<lambda>s. call_factory (CCreatePushManager (store s) (operationTableManager s))
                          (createPushManager d (store s) (operationTableManager s)) s) (\<lambda>ps.
          andThen (assign (\<lambda>s. s\<lparr>pushManager := Some ps\<rparr>)) (\<lambda>_.
          andThen (\<lambda>s. call_factory (CCreatePurgeManager (store s))
                          (createPurgeManager d (store s)) s) (\<lambda>pg.
          assign (\<lambda>s. s\<lparr>purgeManager := Some pg\<rparr>)))))))))
       (\<lambda>_.
          on_manager pullManager
            (\<lambda>m. call_write (CPullInitialize m) (pull_initialize d m))))
       (\<lambda>_.
          assign (\<lambda>s. s\<lparr>isInitialized := True\<rparr>))"

section \<open>Sequences of calls\<close>

text \<open>The public operations, and the state a call leaves whatever its outcome.\<close>

datatype api_call =
    Initialize jsval
  | Insert jsval jsval
  | Update jsval jsval
  | Lookup jsval jsval jsval
  | Read jsval
  | Del jsval jsval
  | Pull jsval jsval jsval
  | Push
  | Purge jsval jsval

fun after_call :: "'x collaborators \<Rightarrow> api_call \<Rightarrow> 'x state \<Rightarrow> 'x state" where
  "after_call d (Initialize localStore) s = snd (initialize d localStore s)"
| "after_call d (Insert t i) s = snd (insert_instance d t i s)"
| "after_call d (Update t i) s = snd (update d t i s)"
| "after_call d (Lookup t i sp) s = snd (lookup d t i sp s)"
| "after_call d (Read q) s = snd (read d q s)"
| "after_call d (Del t i) s = snd (del d t i s)"
| "after_call d (Pull q qi st) s = snd (pull d q qi st s)"
| "after_call d Push s = snd (push d s)"
| "after_call d (Purge q f) s = snd (purge d q f s)"

fun after_calls :: "'x collaborators \<Rightarrow> api_call list \<Rightarrow> 'x state \<Rightarrow> 'x state" where
  "after_calls d [] s = s"
| "after_calls d (c # cs) s = after_calls d cs (after_call d c s)"

text \<open>
  What holds of the variables of a context that says it is initialized: the store and
  the four managers are set.
\<close>

definition managers_set :: "'x state \<Rightarrow> bool" where
  "managers_set s =
     (is_object (store s) \<and> operationTableManager s \<noteq> None \<and> pullManager s \<noteq> None
      \<and> pushManager s \<noteq> None \<and> purgeManager s \<noteq> None)"

definition initialized_context :: "'x state \<Rightarrow> bool" where
  "initialized_context s = (isInitialized s \<and> managers_set s)"

text \<open>The arguments with which \<^verbatim>\<open>purge\<close> passes its own validation.\<close>

definition purge_arguments_valid :: "jsval \<Rightarrow> jsval \<Rightarrow> bool" where
  "purge_arguments_valid query forcePurge =
     (is_object query \<and> (case forcePurge of VUndefined \<Rightarrow> True | VNull \<Rightarrow> True
                                             | VBool b \<Rightarrow> True | _ \<Rightarrow> False))"

text \<open>A table name that passes \<^verbatim>\<open>isString\<close> and \<^verbatim>\<open>notNullOrEmpty\<close>.\<close>

fun tableName_valid :: "jsval \<Rightarrow> bool" where
  "tableName_valid (VStr n) = (n \<noteq> [])"
| "tableName_valid v = False"

text \<open>The value of \<^verbatim>\<open>instance.id\<close> where \<^verbatim>\<open>instance\<close> is not null.\<close>

definition id_of :: "heap \<Rightarrow> jsval \<Rightarrow> jsval" where
  "id_of h instance = (case get_prop h instance ''id'' of Inl e \<Rightarrow> VUndefined | Inr v \<Rightarrow> v)"

section \<open>The collaborators of the specification\<close>

text \<open>
  One concrete set of collaborators: an in-memory local store, the operation table
  manager and the push manager of the specification, and a transport. The rows of the
  store are keyed by table name and id; the operation table is kept in log order.
\<close>

datatype verb = Create | Modify | Remove

datatype request = Request verb jsval jsval "obj option"

record sync_world =
  records :: "((jsval \<times> jsval) \<times> obj) list"
  operations :: "pending_op list"
  nextOrder :: nat
  nextUuid :: nat
  requests :: "request list"

definition op_for :: "jsval \<Rightarrow> jsval \<Rightarrow> pending_op \<Rightarrow> bool" where
  "op_for t i p = (op_tableName p = t \<and> op_recordId p = i)"

fun request_for :: "jsval \<Rightarrow> jsval \<Rightarrow> request \<Rightarrow> bool" where
  "request_for t i (Request v t' i' data) = (t' = t \<and> i' = i)"

text \<open>
  Modelled from the spec: the local store is an object of the caller and its engine
  is out of scope. Section 6: \<^verbatim>\<open>lookup(table, id, suppressNotFound)\<close> returns the
  record or \<^verbatim>\<open>undefined\<close>; section 4.3: it fails with \<open>RecordNotFoundError\<close>
  unless suppressed.
\<close>

definition spec_lookup ::
  "jsval \<Rightarrow> jsval \<Rightarrow> jsval \<Rightarrow> jsval \<Rightarrow> heap \<Rightarrow> sync_world \<Rightarrow> error + obj option" where
  "spec_lookup st t i suppress h w =
     (case map_of (records w) (t, i) of
        Some r \<Rightarrow> Inr (Some r)
      | None \<Rightarrow> if truthy suppress then Inr None else Inl RecordNotFoundError)"

text \<open>
  Modelled from the spec: section 6, \<^verbatim>\<open>read(query)\<close> returns an array of records.
  The query language is out of scope: the query is an object whose property
  \<^verbatim>\<open>table\<close> names the table, and every row of that table is returned.
\<close>

definition spec_read :: "jsval \<Rightarrow> jsval \<Rightarrow> heap \<Rightarrow> sync_world \<Rightarrow> error + obj list" where
  "spec_read st query h w =
     (case get_prop h query ''table'' of
        Inl e \<Rightarrow> Inl e
      | Inr t \<Rightarrow> Inr (map snd (filter (\<lambda>row. fst (fst row) = t) (records w))))"

text \<open>
  Modelled from the spec: section 3, at most one pending operation exists for a table and
  an id. Writing a logging entry: the entry replaces the pending operation of the same
  table and id where there is one, and is appended to the log otherwise.
\<close>

definition write_op :: "pending_op \<Rightarrow> pending_op list \<Rightarrow> pending_op list" where
  "write_op p ps =
     (if find (op_for (op_tableName p) (op_recordId p)) ps = None
      then ps @ [p]
      else map (\<lambda>q. if op_for (op_tableName p) (op_recordId p) q then p else q) ps)"

text \<open>
  Modelled from the spec: section 6, each batch entry is an upsert of the data, a
  delete by id, or a logging-entry write, and the entries execute as a unit. The
  in-memory store has no failure of its own, so the unit always succeeds.
\<close>

fun apply_entry :: "heap \<Rightarrow> batch_entry \<Rightarrow> sync_world \<Rightarrow> sync_world" where
  "apply_entry h (BUpsert t (VRef r)) w =
     w\<lparr>records := AList.update (t, id_of h (VRef r)) (h r) (records w)\<rparr>"
| "apply_entry h (BUpsert t v) w = w"
| "apply_entry h (BDelete t i) w = w\<lparr>records := AList.delete (t, i) (records w)\<rparr>"
| "apply_entry h (BLog (LogWrite p)) w = w\<lparr>operations := write_op p (operations w)\<rparr>"
| "apply_entry h (BLog (LogRemove t i)) w =
     w\<lparr>operations := filter (\<lambda>q. \<not> op_for t i q) (operations w)\<rparr>"

text \<open>
  Modelled from the spec: section 6, \<^verbatim>\<open>executeBatch(operations)\<close> applies the entries in
  order, as a unit.
\<close>

definition spec_executeBatch ::
  "jsval \<Rightarrow> batch_entry list \<Rightarrow> heap \<Rightarrow> sync_world \<Rightarrow> (error + unit) \<times> sync_world" where
  "spec_executeBatch st entries h w = (Inr (), fold (apply_entry h) entries w)"

text \<open>
  Modelled from the spec: \<^verbatim>\<open>sync/operations\<close> is not among the sources. Section 4.2,
  the merge rule of \<^verbatim>\<open>getLoggingOperation\<close> when a pending entry exists for the
  table and the id of the record: insert then update remains insert; insert then delete
  removes the entry; update then delete becomes delete; update or delete then insert
  signals an error. The section does not say what the other pairs give: they are the
  error \<open>UnspecifiedMergeError\<close> here. Without a pending entry the new entry
  carries the action and the next logical order.
\<close>

fun merge_operation :: "pending_op \<Rightarrow> action \<Rightarrow> error + logging_op" where
  "merge_operation p a =
     (case (op_action p, a) of
        (A_insert, A_update) \<Rightarrow> Inr (LogWrite p)
      | (A_insert, A_delete) \<Rightarrow> Inr (LogRemove (op_tableName p) (op_recordId p))
      | (A_update, A_delete) \<Rightarrow> Inr (LogWrite (p\<lparr>op_action := A_delete\<rparr>))
      | (A_update, A_insert) \<Rightarrow> Inl OperationConflictError
      | (A_delete, A_insert) \<Rightarrow> Inl OperationConflictError
      | _ \<Rightarrow> Inl UnspecifiedMergeError)"

text \<open>
  Modelled from the spec: section 4.2, \<^verbatim>\<open>getLoggingOperation(tableName, action, record)\<close>
  computes the entry and leaves the write to the caller's batch.
\<close>

definition spec_getLoggingOperation ::
  "handle \<Rightarrow> jsval \<Rightarrow> action \<Rightarrow> jsval \<Rightarrow> heap \<Rightarrow> sync_world \<Rightarrow> (error + logging_op) \<times> sync_world" where
  "spec_getLoggingOperation m t a instance h w =
     (case find (op_for t (id_of h instance)) (operations w) of
        Some p \<Rightarrow> (merge_operation p a, w)
      | None \<Rightarrow>
          (Inr (LogWrite \<lparr> op_tableName = t, op_recordId = id_of h instance,
                             op_action = a, op_logicalOrder = nextOrder w \<rparr>),
           w\<lparr>nextOrder := Suc (nextOrder w)\<rparr>))"

text \<open>
  Modelled from the spec: \<^verbatim>\<open>sync/push\<close> is not among the sources. Section 4.4: the
  pending operations are iterated in log order, each translated (insert to create,
  update to modify, delete to remove) into a request against the table of its record,
  carrying the record as the store holds it; an operation whose request succeeds is
  retired, any other stays pending, and push rejects if one did; the remaining
  operations are attempted all the same. The transport says which requests it accepts;
  the push handler is one that leaves a refused operation pending.
\<close>

fun verb_of :: "action \<Rightarrow> verb" where
  "verb_of A_insert = Create"
| "verb_of A_update = Modify"
| "verb_of A_delete = Remove"

text \<open>
  Modelled from the spec: section 4.4, the request for a pending operation, with the record
  as the store holds it (none once it is deleted).
\<close>

definition request_of :: "((jsval \<times> jsval) \<times> obj) list \<Rightarrow> pending_op \<Rightarrow> request" where
  "request_of rows p =
     Request (verb_of (op_action p)) (op_tableName p) (op_recordId p)
             (map_of rows (op_tableName p, op_recordId p))"

text \<open>
  Modelled from the spec: section 4.4, the iteration over the pending operations; it returns
  the requests sent, in order, and the operations that stay pending.
\<close>

fun push_operations ::
  "(request \<Rightarrow> bool) \<Rightarrow> ((jsval \<times> jsval) \<times> obj) list \<Rightarrow> pending_op list
   \<Rightarrow> request list \<times> pending_op list" where
  "push_operations accepts rows [] = ([], [])"
| "push_operations accepts rows (p # ps) =
     (case push_operations accepts rows ps of
        (sent, pending) \<Rightarrow>
          if accepts (request_of rows p)
          then (request_of rows p # sent, pending)
          else (request_of rows p # sent, p # pending))"

text \<open>
  Modelled from the spec: section 4.4, \<^verbatim>\<open>push(pushHandler)\<close> resolves when no operation
  stays pending and rejects otherwise.
\<close>

definition spec_push ::
  "(request \<Rightarrow> bool) \<Rightarrow> handle \<Rightarrow> jsval \<Rightarrow> heap \<Rightarrow> sync_world \<Rightarrow> (error + unit) \<times> sync_world" where
  "spec_push accepts m handler h w =
     (case push_operations accepts (records w) (operations w) of
        (sent, pending) \<Rightarrow>
          (if pending = [] then Inr () else Inl PushError,
           w\<lparr>operations := pending, requests := requests w @ sent\<rparr>))"

text \<open>
  The remaining collaborators of this set are concrete inputs for the instances of the
  theorems, which hold for every set of collaborators unless they name this one: an id
  generator that counts, a validator of ids that accepts the non-empty strings and the
  positive numbers, factories and initialisations that succeed, and a pull and a purge
  manager that resolve without effect.
\<close>

definition counting_uuid :: "sync_world \<Rightarrow> string \<times> sync_world" where
  "counting_uuid w = (replicate (Suc (nextUuid w)) (CHR ''u''), w\<lparr>nextUuid := Suc (nextUuid w)\<rparr>)"

fun plain_id :: "jsval \<Rightarrow> bool" where
  "plain_id (VStr n) = (n \<noteq> [])"
| "plain_id (VNum n) = (0 < n)"
| "plain_id v = False"

definition spec_collaborators :: "(request \<Rightarrow> bool) \<Rightarrow> sync_world collaborators" where
  "spec_collaborators accepts =
     \<lparr> isValidId = plain_id,
       uuid_v4 = counting_uuid,
       createOperationTableManager = (\<lambda>st. Inr 10),
       createPullManager = (\<lambda>st m. Inr 20),
       createPushManager = (\<lambda>st m. Inr 30),
       createPurgeManager = (\<lambda>st. Inr 40),
       operations_initialize = (\<lambda>m st h w. (Inr (), w)),
       getLoggingOperation = spec_getLoggingOperation,
       pull_initialize = (\<lambda>m h w. (Inr (), w)),
       pullManager_pull = (\<lambda>m q qi st h w. (Inr (), w)),
       pushManager_push = spec_push accepts,
       purgeManager_purge = (\<lambda>m q f h w. (Inr (), w)),
       store_lookup = spec_lookup,
       store_read = spec_read,
       store_executeBatch = spec_executeBatch \<rparr>"

text \<open>
  A set of collaborators whose store, operation table manager and push manager are those
  of the specification, for a transport that accepts the requests \<open>accepts\<close> says.
\<close>

definition of_specification :: "(request \<Rightarrow> bool) \<Rightarrow> sync_world collaborators \<Rightarrow> bool" where
  "of_specification accepts d =
     (store_lookup d = spec_lookup \<and> store_executeBatch d = spec_executeBatch
      \<and> getLoggingOperation d = spec_getLoggingOperation
      \<and> pushManager_push d = spec_push accepts)"

text \<open>An empty world, and a heap with the store object at address 0 and no other property set.\<close>

definition empty_world :: sync_world where
  "empty_world = \<lparr> records = [], operations = [], nextOrder = 0, nextUuid = 0, requests = [] \<rparr>"

definition empty_heap :: heap where
  "empty_heap = (\<lambda>r. [])"

definition accept_all :: "request \<Rightarrow> bool" where
  "accept_all rq = True"

section \<open>Definitions used by the statements and their proofs\<close>

text \<open>
  The state in which \<^verbatim>\<open>insert\<close> goes on once it has generated an id and assigned it to the
  object at address \<open>r\<close>: the call is logged, the generator has advanced, the object carries the id.
\<close>

definition with_uuid :: "'x collaborators \<Rightarrow> nat \<Rightarrow> 'x state \<Rightarrow> 'x state" where
  "with_uuid d r s =
     s\<lparr>calls := calls s @ [CUuid (fst (uuid_v4 d (world s)))],
       world := snd (uuid_v4 d (world s)),
       heap := (heap s)(r := AList.update ''id'' (VStr (fst (uuid_v4 d (world s)))) (heap s r))\<rparr>"

text \<open>
  A promise preserves a property of the state when the state it leaves has it as the
  state it started from had.
\<close>

definition preserves :: "('x state \<Rightarrow> 'b) \<Rightarrow> ('x, 'a) promise \<Rightarrow> bool" where
  "preserves f p = (\<forall>s. f (snd (p s)) = f s)"

text \<open>
  A property of the state that does not read the state of the collaborators or the call log.
\<close>

definition outside_world :: "('x state \<Rightarrow> 'b) \<Rightarrow> bool" where
  "outside_world f = (\<forall>s c w. f (s\<lparr>calls := c, world := w\<rparr>) = f s)"

text \<open>
  A property of the state that does not read the heap.
\<close>

definition outside_heap :: "('x state \<Rightarrow> 'b) \<Rightarrow> bool" where
  "outside_heap f = (\<forall>s h. f (s\<lparr>heap := h\<rparr>) = f s)"

text \<open>
  Concrete inputs: the store object at address 0, a record without an id at address 2, a record with the
  id \<^verbatim>\<open>u\<close> at address 3, a query object at address 4.
\<close>

definition demo_heap :: heap where
  "demo_heap = empty_heap(2 := [(''text'', VStr ''a'')],
                          3 := [(''id'', VStr ''u''), (''text'', VStr ''b'')],
                          4 := [(''table'', VStr ''todo'')])"

text \<open>
  A context just constructed.
\<close>

definition fresh_context :: "sync_world state" where
  "fresh_context = new_context demo_heap empty_world"

text \<open>
  The context after \<^verbatim>\<open>initialize\<close> on the store object.
\<close>

definition ready_context :: "sync_world state" where
  "ready_context = snd (initialize (spec_collaborators accept_all) (VRef 0) fresh_context)"

text \<open>
  The context after the record at address 2 has been inserted into the table \<^verbatim>\<open>todo\<close>.
\<close>

definition stored_context :: "sync_world state" where
  "stored_context = snd (insert_instance (spec_collaborators accept_all) (VStr ''todo'') (VRef 2) ready_context)"

text \<open>
  The heap once that record carries the generated id.
\<close>

definition stored_heap :: heap where
  "stored_heap = demo_heap(2 := [(''text'', VStr ''a''), (''id'', VStr ''u'')])"

text \<open>
  The pending operation that this insert logs.
\<close>

definition pending_insert :: pending_op where
  "pending_insert = \<lparr> op_tableName = VStr ''todo'', op_recordId = VStr ''u'',
                       op_action = A_insert, op_logicalOrder = 0 \<rparr>"

text \<open>
  The store and the operation table after this insert.
\<close>

definition stored_world :: sync_world where
  "stored_world = \<lparr> records = [((VStr ''todo'', VStr ''u''), [(''text'', VStr ''a''), (''id'', VStr ''u'')])],
                    operations = [pending_insert], nextOrder = Suc 0, nextUuid = Suc 0, requests = [] \<rparr>"

text \<open>
  The steps of initialization in the words of the specification, in order: the store is an
  object, the operation table manager is constructed and initialized, the pull, push and purge
  managers are constructed, the pull manager is initialized; each step succeeds.
\<close>

definition initialization_steps_succeed :: "'x collaborators \<Rightarrow> jsval \<Rightarrow> 'x state \<Rightarrow> bool" where
  "initialization_steps_succeed d localStore s =
     (is_object localStore \<and>
      (case createOperationTableManager d localStore of
         Inl e \<Rightarrow> False
       | Inr om \<Rightarrow>
          (case operations_initialize d om localStore (heap s) (world s) of
             (Inl e, w1) \<Rightarrow> False
           | (Inr u, w1) \<Rightarrow>
              (case createPullManager d localStore (Some om) of
                 Inl e \<Rightarrow> False
               | Inr pl \<Rightarrow>
                  (case createPushManager d localStore (Some om) of
                     Inl e \<Rightarrow> False
                   | Inr ps \<Rightarrow>
                      (case createPurgeManager d localStore of
                         Inl e \<Rightarrow> False
                       | Inr pg \<Rightarrow>
                          (case pull_initialize d pl (heap s) w1 of
                             (Inl e, w2) \<Rightarrow> False
                           | (Inr u, w2) \<Rightarrow> True)))))))"

text \<open>
  The store and the operation table after the update of a record that was not held.
\<close>

definition updated_world :: sync_world where
  "updated_world =
     \<lparr> records = [((VStr ''todo'', VStr ''u''), [(''id'', VStr ''u''), (''text'', VStr ''b'')])],
       operations = [\<lparr> op_tableName = VStr ''todo'', op_recordId = VStr ''u'',
                       op_action = A_update, op_logicalOrder = 0 \<rparr>],
       nextOrder = Suc 0, nextUuid = 0, requests = [] \<rparr>"

section \<open>Properties of the operations\<close>

subsection \<open>Stepping through a chain\<close>

lemma andThen_settle:
  "andThen (settle r) k s = (case r of Inl e \<Rightarrow> (Inl e, s) | Inr a \<Rightarrow> k a s)"
  by (cases r) (simp_all add: andThen_def settle_def)

lemma andThen_resolve: "andThen (resolve a) k s = k a s"
  by (simp add: andThen_def resolve_def)

lemma andThen_reject: "andThen (reject e) k s = (Inl e, s)"
  by (simp add: andThen_def reject_def)

lemma andThen_assign: "andThen (assign f) k s = k () (f s)"
  by (simp add: andThen_def assign_def)

lemma andThen_validateInitialization:
  "andThen validateInitialization k s =
     (if isInitialized s then k () s else (Inl NotInitializedError, s))"
  by (simp add: andThen_def validateInitialization_def)

lemma andThen_check_store:
  "andThen check_store k s = (if truthy (store s) then k () s else (Inl StoreNotSetError, s))"
  by (simp add: andThen_def check_store_def)

lemma andThen_read_id:
  "andThen (read_id i) k s = (if isNull i then (Inl TypeError, s) else k (id_of (heap s) i) s)"
  by (cases i) (simp_all add: andThen_def read_id_def id_of_def)

lemma andThen_tableName:
  "andThen (settle (Validate_isString t)) (\<lambda>_. andThen (settle (Validate_notNullOrEmpty t)) k) s
   = (if tableName_valid t then k () s else (Inl ValidationError, s))"
  by (cases t) (simp_all add: andThen_settle check_def)

lemma check_store_tail:
  "check_store s = (if truthy (store s) then (Inr (), s) else (Inl StoreNotSetError, s))"
  by (simp add: check_store_def)

lemma andThen_notNull:
  "andThen (settle (Validate_notNull v)) k s = (if isNull v then (Inl ValidationError, s) else k () s)"
  by (simp add: andThen_settle Validate_notNull_def check_def)

lemma andThen_isObject:
  "andThen (settle (Validate_isObject v)) k s = (if is_object v then k () s else (Inl ValidationError, s))"
  by (simp add: andThen_settle Validate_isObject_def check_def)

lemma andThen_isValidId:
  "andThen (settle (Validate_isValidId d v)) k s = (if isValidId d v then k () s else (Inl ValidationError, s))"
  by (simp add: andThen_settle Validate_isValidId_def check_def)

lemma on_store_read:
  "on_store (\<lambda>st. call_read (c st) (f st)) s =
     (if is_object (store s) then (f (store s) (heap s) (world s), s\<lparr>calls := calls s @ [c (store s)]\<rparr>)
      else (Inl TypeError, s))"
  by (simp add: on_store_def call_read_def logged_def)

lemma on_store_write:
  "on_store (\<lambda>st. call_write (c st) (f st)) s =
     (if is_object (store s)
      then (fst (f (store s) (heap s) (world s)),
            s\<lparr>world := snd (f (store s) (heap s) (world s)), calls := calls s @ [c (store s)]\<rparr>)
      else (Inl TypeError, s))"
  by (simp add: on_store_def call_write_def logged_def split: prod.splits)

lemma on_manager_write:
  "on_manager var (\<lambda>m. call_write (c m) (f m)) s =
     (case var s of
        None \<Rightarrow> (Inl TypeError, s)
      | Some m \<Rightarrow> (fst (f m (heap s) (world s)),
                   s\<lparr>world := snd (f m (heap s) (world s)), calls := calls s @ [c m]\<rparr>))"
  by (simp add: on_manager_def call_write_def logged_def split: prod.splits option.splits)

lemma andThen_cases:
  "andThen p k s = (case fst (p s) of Inl e \<Rightarrow> (Inl e, snd (p s)) | Inr a \<Rightarrow> k a (snd (p s)))"
  by (simp add: andThen_def split: prod.splits sum.splits)

lemma andThen_settle_Inr: "andThen (settle (Inr a)) k s = k a s"
  by (simp add: andThen_settle)

lemma andThen_settle_Inl: "andThen (settle (Inl e)) k s = (Inl e, s)"
  by (simp add: andThen_settle)

lemma andThen_assoc:
  "andThen (andThen p f) k = andThen p (\<lambda>a. andThen (f a) k)"
  by (rule ext) (simp add: andThen_def split: prod.splits sum.splits)

lemmas chain = andThen_assoc andThen_settle_Inr andThen_settle_Inl andThen_tableName andThen_notNull andThen_isObject andThen_isValidId
  andThen_resolve andThen_reject andThen_assign andThen_validateInitialization
  andThen_check_store andThen_read_id taskRunner_run_def Platform_async_def

subsection \<open>Operations on a context that is not initialized\<close>

lemma insert_uninitialized:
  "\<not> isInitialized s \<Longrightarrow> insert_instance d t i s = (Inl NotInitializedError, s)"
  by (simp add: insert_instance_def chain)

lemma update_uninitialized:
  "\<not> isInitialized s \<Longrightarrow> update d t i s = (Inl NotInitializedError, s)"
  by (simp add: update_def chain)

lemma del_uninitialized:
  "\<not> isInitialized s \<Longrightarrow> del d t i s = (Inl NotInitializedError, s)"
  by (simp add: del_def chain)

lemma lookup_uninitialized:
  "\<not> isInitialized s \<Longrightarrow> lookup d t i sp s = (Inl NotInitializedError, s)"
  by (simp add: lookup_def chain)

lemma read_uninitialized:
  "\<not> isInitialized s \<Longrightarrow> read d q s = (Inl NotInitializedError, s)"
  by (simp add: read_def chain)

lemma pull_uninitialized:
  "\<not> isInitialized s \<Longrightarrow> pull d q qi st s = (Inl NotInitializedError, s)"
  by (simp add: pull_def chain)

lemma push_uninitialized:
  "\<not> isInitialized s \<Longrightarrow> push d s = (Inl NotInitializedError, s)"
  by (simp add: push_def chain)

lemma purge_arguments:
  "purge d q f s =
     (if purge_arguments_valid q f
      then andThen validateInitialization (\<lambda>_.
             on_manager purgeManager
               (\<lambda>m. call_write (CPurge m q f) (purgeManager_purge d m q f))) s
      else (Inl ValidationError, s))"
  by (cases q; cases f) (simp_all add: purge_def purge_arguments_valid_def chain)

lemma purge_invalid:
  "\<not> purge_arguments_valid q f \<Longrightarrow> purge d q f s = (Inl ValidationError, s)"
  by (simp add: purge_arguments)

lemma purge_uninitialized:
  "\<not> isInitialized s \<Longrightarrow> purge_arguments_valid q f \<Longrightarrow>
   purge d q f s = (Inl NotInitializedError, s)"
  by (simp add: purge_arguments chain)

subsection \<open>The branches of upsertWithLogging\<close>

lemma upsert_invalid_table:
  "\<not> tableName_valid t \<Longrightarrow> upsertWithLogging d t i a ow s = (Inl ValidationError, s)"
  by (simp add: upsertWithLogging_def chain)

lemma upsert_null_instance:
  "isNull i \<Longrightarrow> upsertWithLogging d t i a ow s = (Inl ValidationError, s)"
  by (simp add: upsertWithLogging_def chain)

lemma upsert_invalid_id:
  "\<not> isValidId d (id_of (heap s) i) \<Longrightarrow> upsertWithLogging d t i a ow s = (Inl ValidationError, s)"
  by (simp add: upsertWithLogging_def chain)

text \<open>With valid arguments the chain starts at the lookup.\<close>

lemma upsert_valid:
  assumes "tableName_valid t" "\<not> isNull i" "isValidId d (id_of (heap s) i)" "is_object (store s)"
  shows "upsertWithLogging d t i a ow s =
     andThen (\<lambda>s. (store_lookup d (store s) t (id_of (heap s) i) (VBool True) (heap s) (world s),
                   s\<lparr>calls := calls s @ [CLookup (store s) t (id_of (heap s) i) (VBool True)]\<rparr>))
       (\<lambda>existingRecord.
     andThen (case existingRecord of
                None \<Rightarrow> resolve ()
              | Some r \<Rightarrow> if \<not> ow
                         then reject (RecordExistsError (record_id r) t)
                         else resolve ()) (\<lambda>_.
     andThen (on_manager operationTableManager
                (\<lambda>m. call_write (CGetLoggingOperation m t a i)
                                 (getLoggingOperation d m t a i)))
       (\<lambda>loggingOperation.
     andThen (on_store (\<lambda>st. call_write
                (CExecuteBatch st [BUpsert t i, BLog loggingOperation])
                (store_executeBatch d st [BUpsert t i, BLog loggingOperation])))
       (\<lambda>_.
     resolve i)))) s"
proof -
  have "truthy (store s)" using assms(4) by (cases "store s") simp_all
  then show ?thesis
    using assms
    by (simp add: upsertWithLogging_def chain on_store_read andThen_def[of "on_store _"] andThen_def[of "\<lambda>s. (_ s, _ s)"])
qed

lemma upsert_no_store:
  "\<not> is_object (store s) \<Longrightarrow> \<exists>e. upsertWithLogging d t i a ow s = (Inl e, s)"
  by (simp add: upsertWithLogging_def chain on_store_read andThen_def[of "on_store _"])

lemma upsert_lookup_fails:
  assumes "tableName_valid t" "\<not> isNull i" "isValidId d (id_of (heap s) i)" "is_object (store s)"
    and "store_lookup d (store s) t (id_of (heap s) i) (VBool True) (heap s) (world s) = Inl e"
  shows "upsertWithLogging d t i a ow s =
           (Inl e, s\<lparr>calls := calls s @ [CLookup (store s) t (id_of (heap s) i) (VBool True)]\<rparr>)"
  by (simp add: upsert_valid[OF assms(1-4)] andThen_def assms(5))

lemma upsert_record_exists:
  assumes "tableName_valid t" "\<not> isNull i" "isValidId d (id_of (heap s) i)" "is_object (store s)"
    and "store_lookup d (store s) t (id_of (heap s) i) (VBool True) (heap s) (world s) = Inr (Some r)"
  shows "upsertWithLogging d t i a False s =
           (Inl (RecordExistsError (record_id r) t),
            s\<lparr>calls := calls s @ [CLookup (store s) t (id_of (heap s) i) (VBool True)]\<rparr>)"
  by (simp add: upsert_valid[OF assms(1-4)] andThen_def assms(5) reject_def)

lemma existing_check:
  "ow \<or> existing = None \<Longrightarrow>
   andThen (case existing of
              None \<Rightarrow> resolve ()
            | Some r \<Rightarrow> if \<not> ow then reject (RecordExistsError (record_id r) t) else resolve ()) k s
   = k () s"
  by (cases existing) (auto simp: andThen_resolve)

lemma upsert_no_manager:
  assumes "tableName_valid t" "\<not> isNull i" "isValidId d (id_of (heap s) i)" "is_object (store s)"
    and "store_lookup d (store s) t (id_of (heap s) i) (VBool True) (heap s) (world s) = Inr existing"
    and "ow \<or> existing = None"
    and "operationTableManager s = None"
  shows "upsertWithLogging d t i a ow s =
           (Inl TypeError, s\<lparr>calls := calls s @ [CLookup (store s) t (id_of (heap s) i) (VBool True)]\<rparr>)"
  by (simp add: upsert_valid[OF assms(1-4)] andThen_def[of "\<lambda>s. (_ s, _ s)"] assms(5)
        existing_check[OF assms(6)] andThen_def[of "on_manager _ _"] on_manager_write assms(7))

lemma upsert_logging_fails:
  assumes "tableName_valid t" "\<not> isNull i" "isValidId d (id_of (heap s) i)" "is_object (store s)"
    and "store_lookup d (store s) t (id_of (heap s) i) (VBool True) (heap s) (world s) = Inr existing"
    and "ow \<or> existing = None"
    and "operationTableManager s = Some m"
    and "getLoggingOperation d m t a i (heap s) (world s) = (Inl e, w1)"
  shows "upsertWithLogging d t i a ow s =
           (Inl e, s\<lparr>world := w1, calls := calls s @ [CLookup (store s) t (id_of (heap s) i) (VBool True),
                 CGetLoggingOperation m t a i]\<rparr>)"
  by (simp add: upsert_valid[OF assms(1-4)] andThen_def[of "\<lambda>s. (_ s, _ s)"] assms(5)
        existing_check[OF assms(6)] andThen_def[of "on_manager _ _"] on_manager_write assms(7,8))

lemma upsert_batch:
  assumes "tableName_valid t" "\<not> isNull i" "isValidId d (id_of (heap s) i)" "is_object (store s)"
    and "store_lookup d (store s) t (id_of (heap s) i) (VBool True) (heap s) (world s) = Inr existing"
    and "ow \<or> existing = None"
    and "operationTableManager s = Some m"
    and "getLoggingOperation d m t a i (heap s) (world s) = (Inr lo, w1)"
    and "store_executeBatch d (store s) [BUpsert t i, BLog lo] (heap s) w1 = (r, w2)"
  shows "upsertWithLogging d t i a ow s =
           (case r of Inl e \<Rightarrow> Inl e | Inr u \<Rightarrow> Inr i,
            s\<lparr>world := w2, calls := calls s @ [CLookup (store s) t (id_of (heap s) i) (VBool True),
                 CGetLoggingOperation m t a i, CExecuteBatch (store s) [BUpsert t i, BLog lo]]\<rparr>)"
  by (cases r)
     (simp_all add: upsert_valid[OF assms(1-4)] andThen_def[of "\<lambda>s. (_ s, _ s)"] assms(5)
        existing_check[OF assms(6)] andThen_def[of "on_manager _ _"] on_manager_write assms(4,7,8,9)
        andThen_def[of "on_store _"] on_store_write resolve_def)

lemma upsert_resolves:
  assumes ok: "upsertWithLogging d t i a ow s = (Inr v, s')"
  shows "v = i \<and> tableName_valid t \<and> \<not> isNull i \<and> isValidId d (id_of (heap s) i) \<and> is_object (store s) \<and>
         (\<exists>m existing lo w1.
            operationTableManager s = Some m \<and>
            store_lookup d (store s) t (id_of (heap s) i) (VBool True) (heap s) (world s) = Inr existing \<and>
            (ow \<or> existing = None) \<and>
            getLoggingOperation d m t a i (heap s) (world s) = (Inr lo, w1) \<and>
            store_executeBatch d (store s) [BUpsert t i, BLog lo] (heap s) w1 = (Inr (), world s') \<and>
            s' = s\<lparr>world := world s', calls := calls s @ [CLookup (store s) t (id_of (heap s) i) (VBool True),
                 CGetLoggingOperation m t a i, CExecuteBatch (store s) [BUpsert t i, BLog lo]]\<rparr>)"
proof -
  have t: "tableName_valid t"
    using ok upsert_invalid_table[of t d i a ow s] by auto
  have i: "\<not> isNull i"
    using ok upsert_null_instance[of i d t a ow s] by auto
  have v: "isValidId d (id_of (heap s) i)"
    using ok upsert_invalid_id[of d s i t a ow] by auto
  have st: "is_object (store s)"
    using ok upsert_no_store[of s d t i a ow] by auto
  obtain existing where lk:
    "store_lookup d (store s) t (id_of (heap s) i) (VBool True) (heap s) (world s) = Inr existing"
    using ok upsert_lookup_fails[OF t i v st, of _ a ow]
    by (cases "store_lookup d (store s) t (id_of (heap s) i) (VBool True) (heap s) (world s)") auto
  have ex: "ow \<or> existing = None"
  proof (rule ccontr)
    assume "\<not> (ow \<or> existing = None)"
    then obtain r where "existing = Some r" "\<not> ow" by auto
    with ok upsert_record_exists[OF t i v st, of r a] lk show False by auto
  qed
  obtain m where m: "operationTableManager s = Some m"
    using ok upsert_no_manager[OF t i v st lk ex, of a]
    by (cases "operationTableManager s") auto
  obtain lr w1 where g: "getLoggingOperation d m t a i (heap s) (world s) = (lr, w1)"
    by (cases "getLoggingOperation d m t a i (heap s) (world s)") auto
  obtain lo where lo: "lr = Inr lo"
    using ok upsert_logging_fails[OF t i v st lk ex m, of a _ w1] g by (cases lr) auto
  obtain r w2 where b: "store_executeBatch d (store s) [BUpsert t i, BLog lo] (heap s) w1 = (r, w2)"
    by (cases "store_executeBatch d (store s) [BUpsert t i, BLog lo] (heap s) w1") auto
  have eq: "(Inr v, s') = (case r of Inl e \<Rightarrow> Inl e | Inr u \<Rightarrow> Inr i,
            s\<lparr>world := w2, calls := calls s @ [CLookup (store s) t (id_of (heap s) i) (VBool True),
                 CGetLoggingOperation m t a i, CExecuteBatch (store s) [BUpsert t i, BLog lo]]\<rparr>)"
    using ok upsert_batch[OF t i v st lk ex m g[unfolded lo] b] by simp
  then have r: "r = Inr ()" and vi: "v = i" by (cases r; simp)+
  from eq have s': "s' = s\<lparr>world := w2, calls := calls s @ [CLookup (store s) t (id_of (heap s) i) (VBool True),
                 CGetLoggingOperation m t a i, CExecuteBatch (store s) [BUpsert t i, BLog lo]]\<rparr>" by simp
  then have w2: "w2 = world s'" by simp
  show ?thesis
    using t i v st m lk ex g[unfolded lo] b[unfolded r w2] vi s'[unfolded w2] by blast
qed

subsection \<open>insert\<close>

lemma insert_null_instance:
  "isInitialized s \<Longrightarrow> isNull i \<Longrightarrow> insert_instance d t i s = (Inl TypeError, s)"
  by (simp add: insert_instance_def chain)

lemma insert_with_id:
  "isInitialized s \<Longrightarrow> \<not> isNull i \<Longrightarrow> \<not> isNull (id_of (heap s) i) \<Longrightarrow>
   insert_instance d t i s = upsertWithLogging d t i A_insert False s"
  by (simp add: insert_instance_def chain)

lemma andThen_call_uuid:
  "andThen (call_uuid d) k s =
     k (VStr (fst (uuid_v4 d (world s))))
       (s\<lparr>calls := calls s @ [CUuid (fst (uuid_v4 d (world s)))], world := snd (uuid_v4 d (world s))\<rparr>)"
  by (simp add: andThen_def call_uuid_def logged_def split: prod.splits)

lemma andThen_assign_id:
  "andThen (assign_id i v) k s =
     (case set_prop (heap s) i ''id'' v of Inl e \<Rightarrow> (Inl e, s) | Inr h \<Rightarrow> k () (s\<lparr>heap := h\<rparr>))"
  by (simp add: andThen_def assign_id_def split: sum.splits)

lemma insert_without_id:
  "isInitialized s \<Longrightarrow> isNull (id_of (heap s) (VRef r)) \<Longrightarrow>
   insert_instance d t (VRef r) s = upsertWithLogging d t (VRef r) A_insert False (with_uuid d r s)"
  by (simp add: insert_instance_def chain with_uuid_def andThen_call_uuid andThen_assign_id)

lemma id_of_with_uuid:
  "id_of (heap (with_uuid d r s)) (VRef r) = VStr (fst (uuid_v4 d (world s)))"
  by (simp add: with_uuid_def id_of_def AList.update_conv')

subsection \<open>lookup and read\<close>

lemma lookup_initialized:
  assumes "isInitialized s" "is_object (store s)"
  shows "lookup d t i sp s =
     (if tableName_valid t \<and> isValidId d i
      then (store_lookup d (store s) t i sp (heap s) (world s),
            s\<lparr>calls := calls s @ [CLookup (store s) t i sp]\<rparr>)
      else (Inl ValidationError, s))"
proof -
  have "truthy (store s)" using assms(2) by (cases "store s") simp_all
  then show ?thesis
    using assms by (simp add: lookup_def chain on_store_read)
qed

lemma read_initialized:
  assumes "isInitialized s" "is_object (store s)"
  shows "read d q s =
     (if is_object q
      then (store_read d (store s) q (heap s) (world s), s\<lparr>calls := calls s @ [CRead (store s) q]\<rparr>)
      else (Inl ValidationError, s))"
proof -
  have "\<not> is_object q \<or> \<not> isNull q" by (cases q) simp_all
  then show ?thesis
    using assms by (auto simp add: read_def chain on_store_read)
qed

subsection \<open>update and del without an id\<close>

lemma null_id_invalid:
  "\<not> isValidId d VUndefined \<Longrightarrow> \<not> isValidId d VNull \<Longrightarrow> isNull v \<Longrightarrow> \<not> isValidId d v"
  by (cases v) simp_all

lemma update_without_id:
  assumes "isInitialized s" "\<not> isValidId d VUndefined" "\<not> isValidId d VNull"
    and "isNull i \<or> isNull (id_of (heap s) i)"
  shows "update d t i s = (Inl ValidationError, s)"
  using assms null_id_invalid[OF assms(2,3), of "id_of (heap s) i"]
  by (auto simp add: update_def chain upsert_null_instance upsert_invalid_id)

lemma del_without_id:
  assumes "isInitialized s" "\<not> isValidId d VUndefined" "\<not> isValidId d VNull"
    and "isNull i \<or> isNull (id_of (heap s) i)"
  shows "del d t i s = (Inl ValidationError, s)"
  using assms null_id_invalid[OF assms(2,3), of "id_of (heap s) i"]
  by (auto simp add: del_def chain)

subsection \<open>initialize\<close>

lemma andThen_factory:
  "andThen (call_factory c r) k s =
     (case r of Inl e \<Rightarrow> (Inl e, s\<lparr>calls := calls s @ [c]\<rparr>)
              | Inr a \<Rightarrow> k a (s\<lparr>calls := calls s @ [c]\<rparr>))"
  by (simp add: andThen_def call_factory_def logged_def split: sum.splits)

lemma andThen_factory_of_state:
  "andThen (\<lambda>s. call_factory (c s) (r s) s) k s =
     (case r s of Inl e \<Rightarrow> (Inl e, s\<lparr>calls := calls s @ [c s]\<rparr>)
                | Inr a \<Rightarrow> k a (s\<lparr>calls := calls s @ [c s]\<rparr>))"
  by (simp add: andThen_def call_factory_def logged_def split: sum.splits)

lemma andThen_manager_write:
  "andThen (on_manager var (\<lambda>m. call_write (c m) (f m))) k s =
     (case var s of
        None \<Rightarrow> (Inl TypeError, s)
      | Some m \<Rightarrow>
         (case fst (f m (heap s) (world s)) of
            Inl e \<Rightarrow> (Inl e, s\<lparr>calls := calls s @ [c m], world := snd (f m (heap s) (world s))\<rparr>)
          | Inr a \<Rightarrow> k a (s\<lparr>calls := calls s @ [c m], world := snd (f m (heap s) (world s))\<rparr>)))"
  by (simp add: andThen_def on_manager_def call_write_def logged_def
        split: prod.splits option.splits sum.splits)

lemma initialize_unfolded:
  "initialize d ls s =
    (if \<not> is_object ls then (Inl ValidationError, s) else
     case createOperationTableManager d ls of
       Inl e \<Rightarrow> (Inl e, s\<lparr>calls := calls s @ [CCreateOperationTableManager ls]\<rparr>)
     | Inr om \<Rightarrow>
        (let s1 = s\<lparr>calls := calls s @ [CCreateOperationTableManager ls],
                     operationTableManager := Some om\<rparr>;
             r2 = operations_initialize d om ls (heap s) (world s);
             s2 = s1\<lparr>calls := calls s1 @ [COperationTableInitialize om ls], world := snd r2\<rparr>
         in case fst r2 of
              Inl e \<Rightarrow> (Inl e, s2)
            | Inr u \<Rightarrow>
               (let s3 = s2\<lparr>store := ls, calls := calls s2 @ [CCreatePullManager ls (Some om)]\<rparr>
                in case createPullManager d ls (Some om) of
                     Inl e \<Rightarrow> (Inl e, s3)
                   | Inr pl \<Rightarrow>
                      (let s4 = s3\<lparr>pullManager := Some pl,
                                   calls := calls s3 @ [CCreatePushManager ls (Some om)]\<rparr>
                       in case createPushManager d ls (Some om) of
                            Inl e \<Rightarrow> (Inl e, s4)
                          | Inr ps \<Rightarrow>
                             (let s5 = s4\<lparr>pushManager := Some ps,
                                          calls := calls s4 @ [CCreatePurgeManager ls]\<rparr>
                              in case createPurgeManager d ls of
                                   Inl e \<Rightarrow> (Inl e, s5)
                                 | Inr pg \<Rightarrow>
                                    (let r6 = pull_initialize d pl (heap s) (snd r2);
                                         s6 = s5\<lparr>purgeManager := Some pg,
                                                 calls := calls s5 @ [CPullInitialize pl],
                                                 world := snd r6\<rparr>
                                     in case fst r6 of
                                          Inl e \<Rightarrow> (Inl e, s6)
                                        | Inr u \<Rightarrow> (Inr (), s6\<lparr>isInitialized := True\<rparr>)))))))"
proof -
  have "\<not> is_object ls \<or> \<not> isNull ls" by (cases ls) simp_all
  then show ?thesis
    by (auto simp add: initialize_def chain andThen_factory andThen_factory_of_state
          andThen_manager_write assign_def Let_def split: sum.splits)
qed

lemma outside_world_calls: "outside_world f \<Longrightarrow> f (s\<lparr>calls := c\<rparr>) = f s"
proof -
  assume "outside_world f"
  then have "\<forall>s c w. f (s\<lparr>calls := c, world := w\<rparr>) = f s"
    unfolding outside_world_def .
  then have "f (s\<lparr>calls := c, world := world s\<rparr>) = f s" by blast
  then show ?thesis by simp
qed

lemma preserves_andThen:
  assumes "preserves f p" "\<And>a. preserves f (g a)"
  shows "preserves f (andThen p g)"
  unfolding preserves_def
proof
  fix s
  from assms(1) have 1: "f (snd (p s)) = f s" by (simp add: preserves_def)
  show "f (snd (andThen p g s)) = f s"
  proof (cases "fst (p s)")
    case (Inl e)
    with 1 show ?thesis by (simp add: andThen_cases)
  next
    case (Inr a)
    from assms(2)[of a] have "f (snd (g a (snd (p s)))) = f (snd (p s))"
      by (simp add: preserves_def)
    with 1 Inr show ?thesis by (simp add: andThen_cases)
  qed
qed

lemma preserves_settle: "preserves f (settle r)"
  by (simp add: preserves_def settle_def)

lemma preserves_resolve: "preserves f (resolve a)"
  by (simp add: preserves_def resolve_def)

lemma preserves_reject: "preserves f (reject e)"
  by (simp add: preserves_def reject_def)

lemma preserves_validateInitialization: "preserves f validateInitialization"
  by (simp add: preserves_def validateInitialization_def)

lemma preserves_check_store: "preserves f check_store"
  by (simp add: preserves_def check_store_def)

lemma preserves_read_id: "preserves f (read_id i)"
  by (simp add: preserves_def read_id_def)

lemma preserves_assign_id: "outside_heap f \<Longrightarrow> preserves f (assign_id i v)"
  by (simp add: preserves_def assign_id_def outside_heap_def split: sum.splits)

lemma preserves_call_uuid: "outside_world f \<Longrightarrow> preserves f (call_uuid d)"
  by (simp add: preserves_def call_uuid_def outside_world_def logged_def split: prod.splits)

lemma preserves_call_read: "outside_world f \<Longrightarrow> preserves f (call_read c g)"
  by (simp add: preserves_def call_read_def logged_def outside_world_calls)

lemma preserves_call_write: "outside_world f \<Longrightarrow> preserves f (call_write c g)"
  by (simp add: preserves_def call_write_def outside_world_def logged_def split: prod.splits)

lemma preserves_on_store: "(\<And>st. preserves f (g st)) \<Longrightarrow> preserves f (on_store g)"
  by (simp add: preserves_def on_store_def)

lemma preserves_on_manager: "(\<And>m. preserves f (g m)) \<Longrightarrow> preserves f (on_manager var g)"
  by (simp add: preserves_def on_manager_def split: option.splits)

lemma preserves_if:
  "preserves f p \<Longrightarrow> preserves f q \<Longrightarrow> preserves f (if b then p else q)"
  by simp

lemma preserves_case_option:
  "preserves f p \<Longrightarrow> (\<And>r. preserves f (q r)) \<Longrightarrow>
   preserves f (case x of None \<Rightarrow> p | Some r \<Rightarrow> q r)"
  by (cases x) simp_all

lemmas preserves_rules = preserves_andThen preserves_settle preserves_resolve preserves_reject
  preserves_validateInitialization preserves_check_store preserves_read_id preserves_assign_id
  preserves_call_uuid preserves_call_read preserves_call_write preserves_on_store
  preserves_on_manager preserves_if preserves_case_option

lemma preserves_upsertWithLogging:
  "outside_world f \<Longrightarrow> preserves f (upsertWithLogging d t i a ow)"
  unfolding upsertWithLogging_def by (intro preserves_rules)

lemma preserves_insert:
  "outside_world f \<Longrightarrow> outside_heap f \<Longrightarrow> preserves f (insert_instance d t i)"
  unfolding insert_instance_def taskRunner_run_def
  by (intro preserves_rules preserves_upsertWithLogging)

lemma preserves_update: "outside_world f \<Longrightarrow> preserves f (update d t i)"
  unfolding update_def taskRunner_run_def by (intro preserves_rules preserves_upsertWithLogging)

lemma preserves_lookup: "outside_world f \<Longrightarrow> preserves f (lookup d t i sp)"
  unfolding lookup_def Platform_async_def by (intro preserves_rules)

lemma preserves_read: "outside_world f \<Longrightarrow> preserves f (read d q)"
  unfolding read_def Platform_async_def by (intro preserves_rules)

lemma preserves_del: "outside_world f \<Longrightarrow> preserves f (del d t i)"
  unfolding del_def taskRunner_run_def by (intro preserves_rules)

lemma preserves_pull: "outside_world f \<Longrightarrow> preserves f (pull d q qi st)"
  unfolding pull_def taskRunner_run_def by (intro preserves_rules)

lemma preserves_push: "outside_world f \<Longrightarrow> preserves f (push d)"
  unfolding push_def taskRunner_run_def
  by (intro preserves_rules)
     (simp add: preserves_def call_write_def outside_world_def logged_def split: prod.splits)

lemma preserves_purge: "outside_world f \<Longrightarrow> preserves f (purge d q g)"
  unfolding purge_def taskRunner_run_def by (intro preserves_rules)

lemma outside_isInitialized: "outside_world isInitialized" "outside_heap isInitialized"
  by (simp_all add: outside_world_def outside_heap_def)

lemma outside_managers_set: "outside_world managers_set" "outside_heap managers_set"
  by (simp_all add: outside_world_def outside_heap_def managers_set_def)

lemma outside_heap_field: "outside_world heap"
  by (simp add: outside_world_def)

text \<open>Every call other than \<^verbatim>\<open>initialize\<close> leaves a property of the variables as it is.\<close>

lemma after_call_preserves:
  assumes "outside_world f" "outside_heap f" "\<And>ls. c \<noteq> Initialize ls"
  shows "f (after_call d c s) = f s"
proof (cases c)
  case (Initialize ls)
  with assms(3) show ?thesis by blast
next
  case (Insert t i)
  then show ?thesis using preserves_insert[OF assms(1,2), of d t i] by (simp add: preserves_def)
next
  case (Update t i)
  then show ?thesis using preserves_update[OF assms(1), of d t i] by (simp add: preserves_def)
next
  case (Lookup t i sp)
  then show ?thesis using preserves_lookup[OF assms(1), of d t i sp] by (simp add: preserves_def)
next
  case (Read q)
  then show ?thesis using preserves_read[OF assms(1), of d q] by (simp add: preserves_def)
next
  case (Del t i)
  then show ?thesis using preserves_del[OF assms(1), of d t i] by (simp add: preserves_def)
next
  case (Pull q qi st)
  then show ?thesis using preserves_pull[OF assms(1), of d q qi st] by (simp add: preserves_def)
next
  case Push
  then show ?thesis using preserves_push[OF assms(1), of d] by (simp add: preserves_def)
next
  case (Purge q g)
  then show ?thesis using preserves_purge[OF assms(1), of d q g] by (simp add: preserves_def)
qed

lemma initialize_isInitialized:
  "isInitialized (snd (initialize d ls s)) = (isInitialized s \<or> fst (initialize d ls s) = Inr ())"
  by (simp add: initialize_unfolded Let_def split: sum.splits)

lemma initialize_managers_set:
  "managers_set s \<or> fst (initialize d ls s) = Inr () \<Longrightarrow> managers_set (snd (initialize d ls s))"
  by (auto simp add: initialize_unfolded Let_def managers_set_def split: sum.splits)

lemma after_call_isInitialized:
  "isInitialized s \<Longrightarrow> isInitialized (after_call d c s)"
proof (cases "\<exists>ls. c = Initialize ls")
  case True
  assume "isInitialized s"
  with True show ?thesis by (auto simp add: initialize_isInitialized)
next
  case False
  assume "isInitialized s"
  with False show ?thesis
    using after_call_preserves[OF outside_isInitialized, of c d s] by simp
qed

lemma after_calls_isInitialized:
  "isInitialized s \<Longrightarrow> isInitialized (after_calls d cs s)"
  by (induction cs arbitrary: s) (simp_all add: after_call_isInitialized)

text \<open>A context that says it is initialized has its store and its managers set.\<close>

lemma after_call_invariant:
  assumes "isInitialized s \<longrightarrow> managers_set s"
  shows "isInitialized (after_call d c s) \<longrightarrow> managers_set (after_call d c s)"
proof (cases "\<exists>ls. c = Initialize ls")
  case True
  then show ?thesis
    using assms initialize_isInitialized initialize_managers_set by fastforce
next
  case False
  then show ?thesis
    using assms after_call_preserves[OF outside_isInitialized, of c d s]
      after_call_preserves[OF outside_managers_set, of c d s] by simp
qed

lemma after_calls_invariant:
  "isInitialized s \<longrightarrow> managers_set s \<Longrightarrow>
   isInitialized (after_calls d cs s) \<longrightarrow> managers_set (after_calls d cs s)"
  by (induction cs arbitrary: s) (simp_all add: after_call_invariant)

lemma reachable_initialized_context:
  "isInitialized (after_calls d cs (new_context h w)) \<Longrightarrow>
   initialized_context (after_calls d cs (new_context h w))"
  using after_calls_invariant[of "new_context h w" d cs]
  by (simp add: new_context_def initialized_context_def)

subsection \<open>The operation table and the push manager of the specification\<close>

lemma spec_fields:
  "isValidId (spec_collaborators accepts) = plain_id"
  "uuid_v4 (spec_collaborators accepts) = counting_uuid"
  "createOperationTableManager (spec_collaborators accepts) = (\<lambda>st. Inr 10)"
  "createPullManager (spec_collaborators accepts) = (\<lambda>st m. Inr 20)"
  "createPushManager (spec_collaborators accepts) = (\<lambda>st m. Inr 30)"
  "createPurgeManager (spec_collaborators accepts) = (\<lambda>st. Inr 40)"
  "operations_initialize (spec_collaborators accepts) = (\<lambda>m st h w. (Inr (), w))"
  "getLoggingOperation (spec_collaborators accepts) = spec_getLoggingOperation"
  "pull_initialize (spec_collaborators accepts) = (\<lambda>m h w. (Inr (), w))"
  "pushManager_push (spec_collaborators accepts) = spec_push accepts"
  "store_lookup (spec_collaborators accepts) = spec_lookup"
  "store_read (spec_collaborators accepts) = spec_read"
  "store_executeBatch (spec_collaborators accepts) = spec_executeBatch"
  by (simp_all add: spec_collaborators_def)

lemma find_single: "filter P xs = [p] \<Longrightarrow> find P xs = Some p"
  by (induction xs) (auto split: if_splits)

lemma single_member:
  assumes "filter P xs = [p]"
  shows "P p"
proof -
  have "p \<in> set (filter P xs)" using assms by simp
  then show ?thesis by simp
qed

lemma single_only:
  assumes "filter P xs = [p]" "q \<in> set xs" "P q"
  shows "q = p"
proof -
  have "q \<in> set (filter P xs)" using assms(2,3) by simp
  then show ?thesis using assms(1) by simp
qed

lemma write_op_same:
  assumes "filter (op_for t i) ps = [p]"
  shows "write_op p ps = ps"
proof -
  have k: "op_tableName p = t" "op_recordId p = i"
    using single_member[OF assms] by (simp_all add: op_for_def)
  have "find (op_for t i) ps \<noteq> None" using find_single[OF assms] by simp
  moreover have "map (\<lambda>q. if op_for t i q then p else q) ps = ps"
    using single_only[OF assms] by (simp add: map_idI)
  ultimately show ?thesis by (simp add: write_op_def k)
qed

lemma push_operations_sent:
  "fst (push_operations accepts rows ps) = map (request_of rows) ps"
  by (induction ps) (auto split: prod.splits)

lemma requests_for_record:
  "filter (request_for t i) (map (request_of rows) ps) = map (request_of rows) (filter (op_for t i) ps)"
  by (induction ps) (simp_all add: request_of_def op_for_def)

lemma spec_update_pending_insert:
  assumes d: "of_specification accepts d"
    and ctx: "initialized_context s"
    and t: "tableName_valid t"
    and i: "isValidId d (id_of (heap s) (VRef r))"
    and p: "filter (op_for t (id_of (heap s) (VRef r))) (operations (world s)) = [p]"
    and a: "op_action p = A_insert"
  shows "\<exists>m. update d t (VRef r) s =
           (Inr (VRef r),
            s\<lparr>world := (world s)\<lparr>records :=
                AList.update (t, id_of (heap s) (VRef r)) (heap s r) (records (world s))\<rparr>,
              calls := calls s @ [CLookup (store s) t (id_of (heap s) (VRef r)) (VBool True),
                 CGetLoggingOperation m t A_update (VRef r),
                 CExecuteBatch (store s) [BUpsert t (VRef r), BLog (LogWrite p)]]\<rparr>)"
proof -
  let ?i = "id_of (heap s) (VRef r)"
  from d have f: "store_lookup d = spec_lookup" "store_executeBatch d = spec_executeBatch"
    "getLoggingOperation d = spec_getLoggingOperation"
    by (simp_all add: of_specification_def)
  from ctx obtain m where m: "operationTableManager s = Some m" and st: "is_object (store s)"
    and init: "isInitialized s"
    by (auto simp: initialized_context_def managers_set_def)
  obtain existing where
    lk: "store_lookup d (store s) t ?i (VBool True) (heap s) (world s) = Inr existing"
    by (cases "map_of (records (world s)) (t, ?i)") (simp_all add: f spec_lookup_def)
  have g: "getLoggingOperation d m t A_update (VRef r) (heap s) (world s)
             = (Inr (LogWrite p), world s)"
    using find_single[OF p] a by (simp add: f spec_getLoggingOperation_def)
  have b: "store_executeBatch d (store s) [BUpsert t (VRef r), BLog (LogWrite p)] (heap s) (world s)
           = (Inr (), (world s)\<lparr>records := AList.update (t, ?i) (heap s r) (records (world s))\<rparr>)"
    using write_op_same[OF p] by (simp add: f spec_executeBatch_def)
  have "update d t (VRef r) s = upsertWithLogging d t (VRef r) A_update True s"
    using init by (simp add: update_def chain)
  also have "\<dots> = (Inr (VRef r),
            s\<lparr>world := (world s)\<lparr>records := AList.update (t, ?i) (heap s r) (records (world s))\<rparr>,
              calls := calls s @ [CLookup (store s) t ?i (VBool True),
                 CGetLoggingOperation m t A_update (VRef r),
                 CExecuteBatch (store s) [BUpsert t (VRef r), BLog (LogWrite p)]]\<rparr>)"
    using upsert_batch[OF t _ i st lk _ m g b] by simp
  finally show ?thesis by blast
qed

lemma spec_push_requests:
  assumes "of_specification accepts d" "isInitialized s" "pushManager s = Some m"
  shows "push d s =
     (if snd (push_operations accepts (records (world s)) (operations (world s))) = []
      then Inr () else Inl PushError,
      s\<lparr>calls := calls s @ [CPush m (pushHandler s)],
        world := (world s)\<lparr>operations :=
                     snd (push_operations accepts (records (world s)) (operations (world s))),
                  requests := requests (world s)
                     @ map (request_of (records (world s))) (operations (world s))\<rparr>\<rparr>)"
  using assms push_operations_sent[of accepts "records (world s)" "operations (world s)"]
  by (cases "push_operations accepts (records (world s)) (operations (world s))")
     (simp add: push_def chain on_manager_def call_write_def logged_def of_specification_def
        spec_push_def)

lemma spec_collaborators_of_specification:
  "of_specification accepts (spec_collaborators accepts)"
  by (simp add: of_specification_def spec_fields)

lemma ready_context_eq:
  "ready_context =
     \<lparr> isInitialized = True, store = VRef 0, operationTableManager = Some 10,
       pullManager = Some 20, pushManager = Some 30, purgeManager = Some 40,
       pushHandler = VUndefined, heap = demo_heap, world = empty_world,
       calls = [CCreateOperationTableManager (VRef 0), COperationTableInitialize 10 (VRef 0),
                CCreatePullManager (VRef 0) (Some 10), CCreatePushManager (VRef 0) (Some 10),
                CCreatePurgeManager (VRef 0), CPullInitialize 20] \<rparr>"
  by (simp add: ready_context_def fresh_context_def new_context_def initialize_unfolded
        spec_fields Let_def)

lemma ready_initialize:
  "initialize (spec_collaborators accept_all) (VRef 0) fresh_context = (Inr (), ready_context)"
  by (simp add: ready_context_eq fresh_context_def new_context_def initialize_unfolded
        spec_fields Let_def)

lemma ready_fields:
  "isInitialized ready_context" "store ready_context = VRef 0"
  "operationTableManager ready_context = Some 10" "pushManager ready_context = Some 30"
  "heap ready_context = demo_heap" "world ready_context = empty_world"
  "initialized_context ready_context"
  by (simp_all add: ready_context_eq initialized_context_def managers_set_def)

lemma demo_ids:
  "id_of demo_heap (VRef 2) = VUndefined" "id_of demo_heap (VRef 3) = VStr ''u''"
  by (simp_all add: id_of_def demo_heap_def empty_heap_def)

lemma stored_insert:
  "insert_instance (spec_collaborators accept_all) (VStr ''todo'') (VRef 2) ready_context =
     (Inr (VRef 2),
      ready_context\<lparr>heap := stored_heap, world := stored_world,
        calls := calls ready_context @
          [CUuid ''u'', CLookup (VRef 0) (VStr ''todo'') (VStr ''u'') (VBool True),
           CGetLoggingOperation 10 (VStr ''todo'') A_insert (VRef 2),
           CExecuteBatch (VRef 0) [BUpsert (VStr ''todo'') (VRef 2), BLog (LogWrite pending_insert)]]\<rparr>)"
proof -
  let ?D = "spec_collaborators accept_all"
  let ?s = "with_uuid ?D 2 ready_context"
  have u: "uuid_v4 ?D empty_world = (''u'', empty_world\<lparr>nextUuid := Suc 0\<rparr>)"
    by (simp add: spec_fields counting_uuid_def empty_world_def)
  have h: "heap ?s = stored_heap"
    by (simp add: with_uuid_def ready_fields u stored_heap_def demo_heap_def empty_heap_def)
  have i: "id_of (heap ?s) (VRef 2) = VStr ''u''"
    by (simp add: h stored_heap_def id_of_def)
  have w: "world ?s = empty_world\<lparr>nextUuid := Suc 0\<rparr>"
    by (simp add: with_uuid_def ready_fields u)
  have 1: "insert_instance ?D (VStr ''todo'') (VRef 2) ready_context =
           upsertWithLogging ?D (VStr ''todo'') (VRef 2) A_insert False ?s"
    by (rule insert_without_id) (simp_all add: ready_fields demo_ids)
  have lk: "store_lookup ?D (store ?s) (VStr ''todo'') (id_of (heap ?s) (VRef 2)) (VBool True) (heap ?s) (world ?s) = Inr None"
    by (simp add: i w spec_fields spec_lookup_def empty_world_def)
  have g: "getLoggingOperation ?D 10 (VStr ''todo'') A_insert (VRef 2) (heap ?s) (world ?s)
           = (Inr (LogWrite pending_insert), empty_world\<lparr>nextUuid := Suc 0, nextOrder := Suc 0\<rparr>)"
    by (simp add: i w spec_fields spec_getLoggingOperation_def empty_world_def pending_insert_def)
  have b: "store_executeBatch ?D (store ?s) [BUpsert (VStr ''todo'') (VRef 2), BLog (LogWrite pending_insert)]
             (heap ?s) (empty_world\<lparr>nextUuid := Suc 0, nextOrder := Suc 0\<rparr>) = (Inr (), stored_world)"
    by (simp add: i spec_fields spec_executeBatch_def h[unfolded stored_heap_def, simplified] empty_world_def stored_world_def
          write_op_def id_of_def stored_heap_def)
  have m: "operationTableManager ?s = Some 10" and st: "is_object (store ?s)" "store ?s = VRef 0"
    by (simp_all add: with_uuid_def ready_fields)
  have v: "isValidId ?D (id_of (heap ?s) (VRef 2))"
    by (simp add: i spec_fields)
  have "upsertWithLogging ?D (VStr ''todo'') (VRef 2) A_insert False ?s =
      (Inr (VRef 2), ?s\<lparr>world := stored_world, calls := calls ?s @ [CLookup (store ?s) (VStr ''todo'') (id_of (heap ?s) (VRef 2)) (VBool True),
                 CGetLoggingOperation 10 (VStr ''todo'') A_insert (VRef 2), CExecuteBatch (store ?s) [BUpsert (VStr ''todo'') (VRef 2), BLog (LogWrite pending_insert)]]\<rparr>)"
    using upsert_batch[OF _ _ v st(1) lk _ m g b] by simp
  then show ?thesis
    unfolding 1
    by (simp add: i st h)
       (simp add: with_uuid_def u ready_fields spec_fields stored_heap_def demo_heap_def
          empty_heap_def id_of_def counting_uuid_def empty_world_def)
qed

lemma stored_context_eq:
  "stored_context = ready_context\<lparr>heap := stored_heap, world := stored_world,
        calls := calls ready_context @
          [CUuid ''u'', CLookup (VRef 0) (VStr ''todo'') (VStr ''u'') (VBool True),
           CGetLoggingOperation 10 (VStr ''todo'') A_insert (VRef 2),
           CExecuteBatch (VRef 0) [BUpsert (VStr ''todo'') (VRef 2), BLog (LogWrite pending_insert)]]\<rparr>"
  by (simp add: stored_context_def stored_insert)

lemma stored_fields:
  "isInitialized stored_context" "store stored_context = VRef 0"
  "operationTableManager stored_context = Some 10" "pushManager stored_context = Some 30"
  "heap stored_context = stored_heap" "world stored_context = stored_world"
  "initialized_context stored_context"
  by (simp_all add: stored_context_eq ready_fields initialized_context_def managers_set_def
        ready_fields(7)[unfolded initialized_context_def managers_set_def])

lemma outcome_case:
  "(case p of (r, w) \<Rightarrow> (case r of Inl e \<Rightarrow> A | Inr u \<Rightarrow> B w))
   = (case fst p of Inl e \<Rightarrow> A | Inr u \<Rightarrow> B (snd p))"
  by (cases p) (simp split: sum.splits)

lemma initialize_resolves_iff:
  "fst (initialize d ls s) = Inr () \<longleftrightarrow> initialization_steps_succeed d ls s"
  by (simp add: initialize_unfolded initialization_steps_succeed_def Let_def outcome_case
        split: sum.splits)

lemma initialize_calls:
  "fst (initialize d ls s) = Inr () \<Longrightarrow>
   \<exists>om pl. calls (snd (initialize d ls s)) =
     calls s @ [CCreateOperationTableManager ls, COperationTableInitialize om ls,
                CCreatePullManager ls (Some om), CCreatePushManager ls (Some om),
                CCreatePurgeManager ls, CPullInitialize pl]"
  by (auto simp add: initialize_unfolded Let_def split: sum.splits if_splits)

section \<open>The claims\<close>

subsection \<open>C1\<close>

text \<open>
  Claim C1, as stated: every public operation invoked before \<^verbatim>\<open>initialize\<close> has completed
  rejects with the not-initialized error. It fails for \<^verbatim>\<open>purge\<close>: on a context just
  constructed, \<^verbatim>\<open>purge(null)\<close> rejects with the validation error.
\<close>

theorem purge_before_initialize_counterexample:
  "\<not> isInitialized fresh_context \<and>
   purge (spec_collaborators accept_all) VNull VUndefined fresh_context
     = (Inl ValidationError, fresh_context)"
  by (simp add: purge_invalid purge_arguments_valid_def fresh_context_def new_context_def)

text \<open>
  Claim C1, amended: on a context whose \<^verbatim>\<open>isInitialized\<close> is false, insert, update, del,
  lookup, read, pull and push reject with the not-initialized error whatever their
  arguments; purge rejects with the not-initialized error when its arguments pass its own
  validation (the query is an object, \<^verbatim>\<open>forcePurge\<close> is null, undefined or a boolean) and
  with the validation error otherwise. In every case the state returned is the state the
  call started from, call log included: no collaborator is called and nothing is written.
\<close>

theorem uninitialized_operations_reject:
  assumes "\<not> isInitialized s"
  shows "insert_instance d t i s = (Inl NotInitializedError, s)
       \<and> update d t i s = (Inl NotInitializedError, s)
       \<and> del d t i s = (Inl NotInitializedError, s)
       \<and> lookup d t k sp s = (Inl NotInitializedError, s)
       \<and> read d q s = (Inl NotInitializedError, s)
       \<and> pull d q qi st s = (Inl NotInitializedError, s)
       \<and> push d s = (Inl NotInitializedError, s)
       \<and> purge d q f s = (if purge_arguments_valid q f then (Inl NotInitializedError, s)
                          else (Inl ValidationError, s))"
  using assms
  by (simp add: insert_uninitialized update_uninitialized del_uninitialized lookup_uninitialized
        read_uninitialized pull_uninitialized push_uninitialized purge_uninitialized purge_invalid)

text \<open>
  Claim C1, the amended statement on a context just constructed.
\<close>

theorem uninitialized_operations_reject_witness:
  "\<not> isInitialized fresh_context
   \<and> insert_instance (spec_collaborators accept_all) (VStr ''todo'') (VRef 2) fresh_context
       = (Inl NotInitializedError, fresh_context)
   \<and> update (spec_collaborators accept_all) (VStr ''todo'') (VRef 2) fresh_context
       = (Inl NotInitializedError, fresh_context)
   \<and> del (spec_collaborators accept_all) (VStr ''todo'') (VRef 2) fresh_context
       = (Inl NotInitializedError, fresh_context)
   \<and> lookup (spec_collaborators accept_all) (VStr ''todo'') (VStr ''u'') VUndefined fresh_context
       = (Inl NotInitializedError, fresh_context)
   \<and> read (spec_collaborators accept_all) (VRef 4) fresh_context
       = (Inl NotInitializedError, fresh_context)
   \<and> pull (spec_collaborators accept_all) (VRef 4) VNull VUndefined fresh_context
       = (Inl NotInitializedError, fresh_context)
   \<and> push (spec_collaborators accept_all) fresh_context = (Inl NotInitializedError, fresh_context)
   \<and> purge (spec_collaborators accept_all) (VRef 4) (VBool True) fresh_context
       = (Inl NotInitializedError, fresh_context)"
proof -
  have h: "\<not> isInitialized fresh_context"
    by (simp add: fresh_context_def new_context_def)
  show ?thesis
    using h uninitialized_operations_reject[OF h, where d = "spec_collaborators accept_all"
        and t = "VStr ''todo''" and i = "VRef 2" and k = "VStr ''u''" and sp = VUndefined
        and q = "VRef 4" and qi = VNull and st = VUndefined and f = "VBool True"]
    by (simp add: purge_arguments_valid_def)
qed

subsection \<open>C2\<close>

text \<open>
  Claim C2: where the record's id has a single pending operation and that operation is an
  insert, a local update of the same table and id resolves, leaves that operation as the
  only pending one for the record, still an insert; the push that follows issues, for this
  record, exactly one request, a create carrying the fields of the updated instance. The
  store, the operation table manager and the push manager are those of the specification.
\<close>

theorem update_of_pending_insert_pushes_one_create:
  assumes d: "of_specification accepts d"
    and ctx: "initialized_context s" and t: "tableName_valid t"
    and i: "isValidId d (id_of (heap s) (VRef r))"
    and p: "filter (op_for t (id_of (heap s) (VRef r))) (operations (world s)) = [p]"
    and a: "op_action p = A_insert"
  shows "fst (update d t (VRef r) s) = Inr (VRef r)
       \<and> filter (op_for t (id_of (heap s) (VRef r)))
            (operations (world (snd (update d t (VRef r) s)))) = [p]
       \<and> (\<exists>sent.
            requests (world (snd (push d (snd (update d t (VRef r) s)))))
              = requests (world s) @ sent
            \<and> filter (request_for t (id_of (heap s) (VRef r))) sent
              = [Request Create t (id_of (heap s) (VRef r)) (Some (heap s r))])"
proof -
  let ?i = "id_of (heap s) (VRef r)"
  let ?rows = "AList.update (t, ?i) (heap s r) (records (world s))"
  from spec_update_pending_insert[OF d ctx t i p a] obtain m where
    u: "update d t (VRef r) s =
           (Inr (VRef r),
            s\<lparr>world := (world s)\<lparr>records := ?rows\<rparr>,
              calls := calls s @ [CLookup (store s) t ?i (VBool True),
                 CGetLoggingOperation m t A_update (VRef r),
                 CExecuteBatch (store s) [BUpsert t (VRef r), BLog (LogWrite p)]]\<rparr>)"
    by blast
  let ?s1 = "snd (update d t (VRef r) s)"
  from ctx obtain pm where pm: "pushManager s = Some pm" and init: "isInitialized s"
    by (auto simp: initialized_context_def managers_set_def)
  have s1: "isInitialized ?s1" "pushManager ?s1 = Some pm"
    "records (world ?s1) = ?rows" "operations (world ?s1) = operations (world s)"
    "requests (world ?s1) = requests (world s)"
    using init pm by (simp_all add: u)
  have k: "op_tableName p = t" "op_recordId p = ?i"
    using single_member[OF p] by (simp_all add: op_for_def)
  have rq: "request_of ?rows p = Request Create t ?i (Some (heap s r))"
    by (simp add: request_of_def k a AList.update_conv')
  have "requests (world (snd (push d ?s1)))
          = requests (world s) @ map (request_of ?rows) (operations (world s))"
    by (simp add: spec_push_requests[OF d s1(1,2)] s1)
  moreover have "filter (request_for t ?i) (map (request_of ?rows) (operations (world s)))
          = [Request Create t ?i (Some (heap s r))]"
    by (simp add: requests_for_record p rq)
  ultimately show ?thesis
    using p by (simp add: u)
qed

text \<open>
  Claim C2 on the scenario of the specification: insert of a record without an id, update
  of the same id with other data, push. One create request is sent, with the data of the
  update.
\<close>

theorem update_of_pending_insert_pushes_one_create_witness:
  "of_specification accept_all (spec_collaborators accept_all)
   \<and> initialized_context stored_context \<and> tableName_valid (VStr ''todo'')
   \<and> isValidId (spec_collaborators accept_all) (id_of (heap stored_context) (VRef 3))
   \<and> filter (op_for (VStr ''todo'') (id_of (heap stored_context) (VRef 3)))
        (operations (world stored_context)) = [pending_insert]
   \<and> op_action pending_insert = A_insert
   \<and> fst (update (spec_collaborators accept_all) (VStr ''todo'') (VRef 3) stored_context)
        = Inr (VRef 3)
   \<and> filter (op_for (VStr ''todo'') (VStr ''u''))
        (operations (world (snd (update (spec_collaborators accept_all) (VStr ''todo'') (VRef 3)
                                   stored_context)))) = [pending_insert]
   \<and> requests (world (snd (push (spec_collaborators accept_all)
        (snd (update (spec_collaborators accept_all) (VStr ''todo'') (VRef 3) stored_context)))))
        = [Request Create (VStr ''todo'') (VStr ''u'')
             (Some [(''id'', VStr ''u''), (''text'', VStr ''b'')])]"
proof -
  let ?D = "spec_collaborators accept_all"
  have i: "id_of stored_heap (VRef 3) = VStr ''u''"
    by (simp add: stored_heap_def demo_heap_def id_of_def)
  have h3: "stored_heap 3 = [(''id'', VStr ''u''), (''text'', VStr ''b'')]"
    by (simp add: stored_heap_def demo_heap_def)
  have 0: "of_specification accept_all ?D" by (rule spec_collaborators_of_specification)
  have 1: "initialized_context stored_context" by (simp add: stored_fields)
  have 2: "tableName_valid (VStr ''todo'')" by simp
  have 3: "isValidId ?D (id_of (heap stored_context) (VRef 3))"
    by (simp add: stored_fields i spec_fields)
  have 4: "filter (op_for (VStr ''todo'') (id_of (heap stored_context) (VRef 3)))
        (operations (world stored_context)) = [pending_insert]"
    by (simp add: stored_fields i stored_world_def op_for_def pending_insert_def)
  have 5: "op_action pending_insert = A_insert" by (simp add: pending_insert_def)
  note c = update_of_pending_insert_pushes_one_create[OF 0 1 2 3 4 5]
  from c have c1: "fst (update ?D (VStr ''todo'') (VRef 3) stored_context) = Inr (VRef 3)"
    by blast
  from c have c2: "filter (op_for (VStr ''todo'') (VStr ''u''))
        (operations (world (snd (update ?D (VStr ''todo'') (VRef 3) stored_context))))
        = [pending_insert]"
    by (simp add: stored_fields i)
  from c obtain sent where
    r: "requests (world (snd (push ?D (snd (update ?D (VStr ''todo'') (VRef 3) stored_context)))))
          = requests (world stored_context) @ sent"
    and f: "filter (request_for (VStr ''todo'') (VStr ''u'')) sent
          = [Request Create (VStr ''todo'') (VStr ''u'') (Some (stored_heap 3))]"
    by (auto simp add: stored_fields i)
  obtain m where u: "update ?D (VStr ''todo'') (VRef 3) stored_context =
           (Inr (VRef 3),
            stored_context\<lparr>world := (world stored_context)\<lparr>records :=
                AList.update (VStr ''todo'', id_of (heap stored_context) (VRef 3))
                  (heap stored_context 3) (records (world stored_context))\<rparr>,
              calls := calls stored_context @
                [CLookup (store stored_context) (VStr ''todo'')
                   (id_of (heap stored_context) (VRef 3)) (VBool True),
                 CGetLoggingOperation m (VStr ''todo'') A_update (VRef 3),
                 CExecuteBatch (store stored_context)
                   [BUpsert (VStr ''todo'') (VRef 3), BLog (LogWrite pending_insert)]]\<rparr>)"
    using spec_update_pending_insert[OF 0 1 2 3 4 5] by blast
  have sent: "sent = [Request Create (VStr ''todo'') (VStr ''u'') (Some (stored_heap 3))]"
    using r
    by (simp add: u spec_push_requests[OF 0] stored_fields stored_world_def i h3 request_of_def
          pending_insert_def)
  have "requests (world (snd (push ?D (snd (update ?D (VStr ''todo'') (VRef 3) stored_context)))))
        = [Request Create (VStr ''todo'') (VStr ''u'')
             (Some [(''id'', VStr ''u''), (''text'', VStr ''b'')])]"
    using r by (simp add: sent h3 stored_fields stored_world_def)
  with 0 1 2 3 4 5 c1 c2 show ?thesis by (intro conjI)
qed

subsection \<open>C3\<close>



subsection \<open>C4\<close>

text \<open>
  Claim C4: on an initialized context, insert of an object whose id is null or absent
  first calls the id generator and assigns the id to the object, and goes on with
  \<^verbatim>\<open>upsertWithLogging\<close> on the state so obtained, so before any call on the store. When
  insert resolves, it resolves with the instance, and the calls it made after that are, in
  order, one lookup of the id, one \<^verbatim>\<open>getLoggingOperation\<close> for the action insert, and one
  \<^verbatim>\<open>executeBatch\<close> of the upsert entry of the instance together with the logging operation
  returned, which succeeded.
\<close>

theorem insert_assigns_id_then_one_batch:
  assumes "isInitialized s"
  shows "(isNull (id_of (heap s) (VRef r)) \<longrightarrow>
            insert_instance d t (VRef r) s
              = upsertWithLogging d t (VRef r) A_insert False (with_uuid d r s)
            \<and> id_of (heap (with_uuid d r s)) (VRef r) = VStr (fst (uuid_v4 d (world s)))
            \<and> calls (with_uuid d r s) = calls s @ [CUuid (fst (uuid_v4 d (world s)))])
       \<and> (\<forall>v s'. insert_instance d t (VRef r) s = (Inr v, s') \<longrightarrow>
            v = VRef r \<and>
            (\<exists>m lo w1 s0.
               s0 = (if isNull (id_of (heap s) (VRef r)) then with_uuid d r s else s) \<and>
               operationTableManager s = Some m \<and>
               getLoggingOperation d m t A_insert (VRef r) (heap s0) (world s0) = (Inr lo, w1) \<and>
               store_executeBatch d (store s) [BUpsert t (VRef r), BLog lo] (heap s0) w1
                 = (Inr (), world s') \<and>
               heap s' = heap s0 \<and>
               calls s' = calls s0 @
                 [CLookup (store s) t (id_of (heap s0) (VRef r)) (VBool True),
                  CGetLoggingOperation m t A_insert (VRef r),
                  CExecuteBatch (store s) [BUpsert t (VRef r), BLog lo]]))"
proof (intro conjI impI allI)
  assume n: "isNull (id_of (heap s) (VRef r))"
  show "insert_instance d t (VRef r) s
          = upsertWithLogging d t (VRef r) A_insert False (with_uuid d r s)"
    using assms n by (rule insert_without_id)
  show "id_of (heap (with_uuid d r s)) (VRef r) = VStr (fst (uuid_v4 d (world s)))"
    by (rule id_of_with_uuid)
  show "calls (with_uuid d r s) = calls s @ [CUuid (fst (uuid_v4 d (world s)))]"
    by (simp add: with_uuid_def)
next
  fix v s'
  assume ok: "insert_instance d t (VRef r) s = (Inr v, s')"
  let ?s0 = "if isNull (id_of (heap s) (VRef r)) then with_uuid d r s else s"
  have same: "operationTableManager ?s0 = operationTableManager s" "store ?s0 = store s"
    by (simp_all add: with_uuid_def)
  have "insert_instance d t (VRef r) s = upsertWithLogging d t (VRef r) A_insert False ?s0"
    using assms by (simp add: insert_without_id insert_with_id)
  with ok have up: "upsertWithLogging d t (VRef r) A_insert False ?s0 = (Inr v, s')" by simp
  from upsert_resolves[OF up] show "v = VRef r" by blast
  from upsert_resolves[OF up] obtain m existing lo w1 where
      m: "operationTableManager ?s0 = Some m"
    and g: "getLoggingOperation d m t A_insert (VRef r) (heap ?s0) (world ?s0) = (Inr lo, w1)"
    and b: "store_executeBatch d (store ?s0) [BUpsert t (VRef r), BLog lo] (heap ?s0) w1
              = (Inr (), world s')"
    and s': "s' = ?s0\<lparr>world := world s',
               calls := calls ?s0 @ [CLookup (store ?s0) t (id_of (heap ?s0) (VRef r)) (VBool True),
                 CGetLoggingOperation m t A_insert (VRef r),
                 CExecuteBatch (store ?s0) [BUpsert t (VRef r), BLog lo]]\<rparr>"
    by blast
  have h: "heap s' = heap ?s0" by (subst s') simp
  have c: "calls s' = calls ?s0 @ [CLookup (store ?s0) t (id_of (heap ?s0) (VRef r)) (VBool True),
                 CGetLoggingOperation m t A_insert (VRef r),
                 CExecuteBatch (store ?s0) [BUpsert t (VRef r), BLog lo]]"
    by (subst s') simp
  show "\<exists>m lo w1 s0.
               s0 = (if isNull (id_of (heap s) (VRef r)) then with_uuid d r s else s) \<and>
               operationTableManager s = Some m \<and>
               getLoggingOperation d m t A_insert (VRef r) (heap s0) (world s0) = (Inr lo, w1) \<and>
               store_executeBatch d (store s) [BUpsert t (VRef r), BLog lo] (heap s0) w1
                 = (Inr (), world s') \<and>
               heap s' = heap s0 \<and>
               calls s' = calls s0 @
                 [CLookup (store s) t (id_of (heap s0) (VRef r)) (VBool True),
                  CGetLoggingOperation m t A_insert (VRef r),
                  CExecuteBatch (store s) [BUpsert t (VRef r), BLog lo]]"
    using m g b h c unfolding same by blast
qed

text \<open>
  Claim C4 on the insert of the record without an id into the table \<^verbatim>\<open>todo\<close>.
\<close>

theorem insert_assigns_id_then_one_batch_witness:
  "isInitialized ready_context \<and> isNull (id_of (heap ready_context) (VRef 2))
   \<and> insert_instance (spec_collaborators accept_all) (VStr ''todo'') (VRef 2) ready_context
       = (Inr (VRef 2), stored_context)
   \<and> id_of (heap stored_context) (VRef 2) = VStr ''u''
   \<and> calls stored_context = calls ready_context @
        [CUuid ''u'', CLookup (VRef 0) (VStr ''todo'') (VStr ''u'') (VBool True),
         CGetLoggingOperation 10 (VStr ''todo'') A_insert (VRef 2),
         CExecuteBatch (VRef 0)
           [BUpsert (VStr ''todo'') (VRef 2), BLog (LogWrite pending_insert)]]"
proof -
  let ?D = "spec_collaborators accept_all"
  have 1: "isInitialized ready_context" by (simp add: ready_fields)
  have 2: "isNull (id_of (heap ready_context) (VRef 2))" by (simp add: ready_fields demo_ids)
  have ok: "insert_instance ?D (VStr ''todo'') (VRef 2) ready_context = (Inr (VRef 2), stored_context)"
    by (simp add: stored_insert stored_context_eq)
  have u: "fst (uuid_v4 ?D (world ready_context)) = ''u''"
    by (simp add: spec_fields counting_uuid_def ready_fields empty_world_def)
  note c = insert_assigns_id_then_one_batch[OF 1, of 2 ?D "VStr ''todo''"]
  from c 2 have a: "id_of (heap (with_uuid ?D 2 ready_context)) (VRef 2) = VStr ''u''"
    and b: "calls (with_uuid ?D 2 ready_context) = calls ready_context @ [CUuid ''u'']"
    by (simp_all add: u)
  from c ok obtain m lo where
    h: "heap stored_context = heap (with_uuid ?D 2 ready_context)"
    and l: "calls stored_context = calls (with_uuid ?D 2 ready_context) @
                 [CLookup (store ready_context) (VStr ''todo'')
                    (id_of (heap (with_uuid ?D 2 ready_context)) (VRef 2)) (VBool True),
                  CGetLoggingOperation m (VStr ''todo'') A_insert (VRef 2),
                  CExecuteBatch (store ready_context) [BUpsert (VStr ''todo'') (VRef 2), BLog lo]]"
    and m: "operationTableManager ready_context = Some m"
    and g: "getLoggingOperation ?D m (VStr ''todo'') A_insert (VRef 2)
              (heap (with_uuid ?D 2 ready_context)) (world (with_uuid ?D 2 ready_context))
              = (Inr lo, snd (getLoggingOperation ?D m (VStr ''todo'') A_insert (VRef 2)
              (heap (with_uuid ?D 2 ready_context)) (world (with_uuid ?D 2 ready_context))))"
    using 2 by fastforce
  have m10: "m = 10" using m by (simp add: ready_fields)
  have w: "world (with_uuid ?D 2 ready_context) = empty_world\<lparr>nextUuid := Suc 0\<rparr>"
    by (simp add: with_uuid_def ready_fields spec_fields counting_uuid_def empty_world_def)
  have lo: "lo = LogWrite pending_insert"
    using g by (simp add: m10 a w spec_fields spec_getLoggingOperation_def empty_world_def
                  pending_insert_def)
  have i: "id_of (heap stored_context) (VRef 2) = VStr ''u''" by (simp add: h a)
  have cs: "calls stored_context = calls ready_context @
        [CUuid ''u'', CLookup (VRef 0) (VStr ''todo'') (VStr ''u'') (VBool True),
         CGetLoggingOperation 10 (VStr ''todo'') A_insert (VRef 2),
         CExecuteBatch (VRef 0)
           [BUpsert (VStr ''todo'') (VRef 2), BLog (LogWrite pending_insert)]]"
    by (simp add: l b a m10 lo ready_fields)
  from 1 2 ok i cs show ?thesis by (intro conjI)
qed

subsection \<open>C5\<close>

text \<open>
  Claim C5: on an initialized context, with a valid table name and id, whatever the lookup
  returns (a record or none), update computes the logging operation for the action update and
  executes the batch of the upsert entry and that logging operation; its outcome is the
  outcome of the batch, the instance when the batch succeeds. The record being absent is no
  cause of failure.
\<close>

theorem update_overwrites:
  assumes "initialized_context s" and "tableName_valid t" and "\<not> isNull instance"
    and "isValidId d (id_of (heap s) instance)"
    and "store_lookup d (store s) t (id_of (heap s) instance) (VBool True) (heap s) (world s)
           = Inr existing"
    and "operationTableManager s = Some m"
    and "getLoggingOperation d m t A_update instance (heap s) (world s) = (Inr lo, w1)"
    and "store_executeBatch d (store s) [BUpsert t instance, BLog lo] (heap s) w1 = (r, w2)"
  shows "update d t instance s =
           (case r of Inl e \<Rightarrow> Inl e | Inr u \<Rightarrow> Inr instance,
            s\<lparr>world := w2,
              calls := calls s @ [CLookup (store s) t (id_of (heap s) instance) (VBool True),
                                  CGetLoggingOperation m t A_update instance,
                                  CExecuteBatch (store s) [BUpsert t instance, BLog lo]]\<rparr>)"
proof -
  from assms(1) have init: "isInitialized s" and st: "is_object (store s)"
    by (simp_all add: initialized_context_def managers_set_def)
  have "update d t instance s = upsertWithLogging d t instance A_update True s"
    using init by (simp add: update_def chain)
  then show ?thesis
    using upsert_batch[OF assms(2,3,4) st assms(5) _ assms(6,7,8)] by simp
qed

text \<open>
  Claim C5 on the update of a record that the store does not hold.
\<close>

theorem update_overwrites_witness:
  "initialized_context ready_context \<and> tableName_valid (VStr ''todo'') \<and> \<not> isNull (VRef 3)
   \<and> isValidId (spec_collaborators accept_all) (id_of (heap ready_context) (VRef 3))
   \<and> store_lookup (spec_collaborators accept_all) (store ready_context) (VStr ''todo'')
        (id_of (heap ready_context) (VRef 3)) (VBool True) (heap ready_context) (world ready_context)
        = Inr None
   \<and> update (spec_collaborators accept_all) (VStr ''todo'') (VRef 3) ready_context =
       (Inr (VRef 3),
        ready_context\<lparr>world := updated_world,
          calls := calls ready_context @
            [CLookup (VRef 0) (VStr ''todo'') (VStr ''u'') (VBool True),
             CGetLoggingOperation 10 (VStr ''todo'') A_update (VRef 3),
             CExecuteBatch (VRef 0)
               [BUpsert (VStr ''todo'') (VRef 3),
                BLog (LogWrite \<lparr> op_tableName = VStr ''todo'', op_recordId = VStr ''u'',
                                  op_action = A_update, op_logicalOrder = 0 \<rparr>)]]\<rparr>)"
proof -
  let ?D = "spec_collaborators accept_all"
  let ?p = "\<lparr> op_tableName = VStr ''todo'', op_recordId = VStr ''u'',
               op_action = A_update, op_logicalOrder = 0 \<rparr>"
  have i: "id_of (heap ready_context) (VRef 3) = VStr ''u''"
    by (simp add: ready_fields demo_ids)
  have 1: "initialized_context ready_context" by (simp add: ready_fields)
  have 2: "tableName_valid (VStr ''todo'')" by simp
  have 3: "\<not> isNull (VRef 3)" by simp
  have 4: "isValidId ?D (id_of (heap ready_context) (VRef 3))" by (simp add: i spec_fields)
  have 5: "store_lookup ?D (store ready_context) (VStr ''todo'')
        (id_of (heap ready_context) (VRef 3)) (VBool True) (heap ready_context) (world ready_context)
        = Inr None"
    by (simp add: i spec_fields spec_lookup_def ready_fields empty_world_def)
  have 6: "operationTableManager ready_context = Some 10" by (simp add: ready_fields)
  have 7: "getLoggingOperation ?D 10 (VStr ''todo'') A_update (VRef 3) (heap ready_context)
             (world ready_context) = (Inr (LogWrite ?p), empty_world\<lparr>nextOrder := Suc 0\<rparr>)"
    by (simp add: spec_fields spec_getLoggingOperation_def ready_fields demo_ids empty_world_def)
  have 8: "store_executeBatch ?D (store ready_context)
             [BUpsert (VStr ''todo'') (VRef 3), BLog (LogWrite ?p)] (heap ready_context)
             (empty_world\<lparr>nextOrder := Suc 0\<rparr>) = (Inr (), updated_world)"
    by (simp add: spec_fields spec_executeBatch_def ready_fields demo_ids empty_world_def
          updated_world_def write_op_def)
       (simp add: demo_heap_def)
  show ?thesis
    using 1 2 3 4 5 update_overwrites[OF 1 2 3 4 5 6 7 8]
    by (simp add: i ready_fields demo_ids)
qed

subsection \<open>C6\<close>

text \<open>
  Claim C6: after \<^verbatim>\<open>initialize\<close>, \<^verbatim>\<open>isInitialized\<close> is true exactly when it was true before
  or the call resolved; the call resolves exactly when every step of the initialization
  succeeds, and then the steps were made in the order operation table manager constructed and
  initialized, pull, push and purge managers constructed, pull manager initialized. So a
  failing step leaves a false flag false. No sequence of public calls resets a true flag.
\<close>

theorem initialize_sets_flag_last:
  "isInitialized (snd (initialize d localStore s))
     = (isInitialized s \<or> fst (initialize d localStore s) = Inr ())
   \<and> (fst (initialize d localStore s) = Inr () \<longleftrightarrow> initialization_steps_succeed d localStore s)
   \<and> (fst (initialize d localStore s) = Inr () \<longrightarrow>
        (\<exists>om pl. calls (snd (initialize d localStore s)) =
           calls s @ [CCreateOperationTableManager localStore, COperationTableInitialize om localStore,
                      CCreatePullManager localStore (Some om), CCreatePushManager localStore (Some om),
                      CCreatePurgeManager localStore, CPullInitialize pl]))
   \<and> (isInitialized s \<longrightarrow> isInitialized (after_calls d cs s))"
  using initialize_isInitialized[of d localStore s] initialize_resolves_iff[of d localStore s]
    initialize_calls[of d localStore s] after_calls_isInitialized[of s d cs]
  by blast

text \<open>
  Claim C6 on a context just constructed: initialization on the store object sets the flag,
  initialization on \<^verbatim>\<open>null\<close> fails and leaves it false, and later calls, a failing
  initialization among them, leave it true.
\<close>

theorem initialize_sets_flag_last_witness:
  "isInitialized (snd (initialize (spec_collaborators accept_all) (VRef 0) fresh_context))
   \<and> \<not> isInitialized fresh_context
   \<and> fst (initialize (spec_collaborators accept_all) (VRef 0) fresh_context) = Inr ()
   \<and> initialization_steps_succeed (spec_collaborators accept_all) (VRef 0) fresh_context
   \<and> \<not> isInitialized (snd (initialize (spec_collaborators accept_all) VNull fresh_context))
   \<and> \<not> initialization_steps_succeed (spec_collaborators accept_all) VNull fresh_context
   \<and> isInitialized (after_calls (spec_collaborators accept_all)
        [Insert (VStr ''todo'') (VRef 2), Initialize VNull, Purge VNull VNull] ready_context)"
proof -
  have r: "isInitialized ready_context" by (simp add: ready_fields)
  have f: "\<not> isInitialized fresh_context" by (simp add: fresh_context_def new_context_def)
  show ?thesis
    using f ready_initialize
      initialize_sets_flag_last[of "spec_collaborators accept_all" "VRef 0" fresh_context "[]"]
      initialize_sets_flag_last[of "spec_collaborators accept_all" VNull fresh_context "[]"]
      initialize_sets_flag_last[of "spec_collaborators accept_all" "VRef 0" ready_context
        "[Insert (VStr ''todo'') (VRef 2), Initialize VNull, Purge VNull VNull]"]
    by (simp add: r initialization_steps_succeed_def)
qed

subsection \<open>C7\<close>

text \<open>
  Claim C7, as stated: on every initialized context the result of lookup is the result of
  the store's lookup. It fails where the arguments do not pass validation: with an empty table
  name lookup rejects with the validation error, while the store's lookup would have returned
  \<^verbatim>\<open>undefined\<close>.
\<close>

theorem lookup_invalid_table_counterexample:
  "initialized_context ready_context
   \<and> lookup (spec_collaborators accept_all) (VStr []) (VStr ''u'') (VBool True) ready_context
       = (Inl ValidationError, ready_context)
   \<and> store_lookup (spec_collaborators accept_all) (store ready_context) (VStr []) (VStr ''u'')
       (VBool True) (heap ready_context) (world ready_context) = Inr None"
  by (simp add: lookup_initialized ready_fields spec_fields spec_lookup_def empty_world_def)

text \<open>
  Claim C7, amended: on an initialized context lookup and read change nothing but the call
  log, which gains at most the one read of the store; they never compute a logging operation
  or execute a batch. With a valid table name and id, the result of lookup is the result of
  the store's lookup with the same arguments, the suppress flag passed through; with a query
  that is an object, the result of read is the result of the store's read. With other
  arguments they reject with the validation error without calling the store.
\<close>

theorem lookup_read_pass_through:
  assumes "initialized_context s"
  shows "lookup d t i sp s =
           (if tableName_valid t \<and> isValidId d i
            then (store_lookup d (store s) t i sp (heap s) (world s),
                  s\<lparr>calls := calls s @ [CLookup (store s) t i sp]\<rparr>)
            else (Inl ValidationError, s))
       \<and> read d q s =
           (if is_object q
            then (store_read d (store s) q (heap s) (world s),
                  s\<lparr>calls := calls s @ [CRead (store s) q]\<rparr>)
            else (Inl ValidationError, s))"
  using assms
  by (simp add: initialized_context_def managers_set_def lookup_initialized read_initialized)

text \<open>
  Claim C7, the amended statement on the context that holds the record \<^verbatim>\<open>u\<close>.
\<close>

theorem lookup_read_pass_through_witness:
  "initialized_context stored_context
   \<and> lookup (spec_collaborators accept_all) (VStr ''todo'') (VStr ''u'') VUndefined stored_context
       = (Inr (Some [(''text'', VStr ''a''), (''id'', VStr ''u'')]),
          stored_context\<lparr>calls := calls stored_context @
             [CLookup (VRef 0) (VStr ''todo'') (VStr ''u'') VUndefined]\<rparr>)
   \<and> read (spec_collaborators accept_all) (VRef 4) stored_context
       = (Inr [[(''text'', VStr ''a''), (''id'', VStr ''u'')]],
          stored_context\<lparr>calls := calls stored_context @ [CRead (VRef 0) (VRef 4)]\<rparr>)"
proof -
  have 1: "initialized_context stored_context" by (simp add: stored_fields)
  show ?thesis
    using 1 lookup_read_pass_through[OF 1, of "spec_collaborators accept_all" "VStr ''todo''"
        "VStr ''u''" VUndefined "VRef 4"]
    by (simp add: spec_fields spec_lookup_def spec_read_def stored_fields stored_world_def
          stored_heap_def demo_heap_def)
qed

subsection \<open>C8\<close>

text \<open>
  Claim C8, as stated: every update or del of an instance whose id is null or absent rejects
  with a validation error. It fails on a context that is not initialized: the rejection is
  the not-initialized error.
\<close>

theorem update_without_id_counterexample:
  "isNull (id_of (heap fresh_context) (VRef 2))
   \<and> update (spec_collaborators accept_all) (VStr ''todo'') (VRef 2) fresh_context
       = (Inl NotInitializedError, fresh_context)
   \<and> del (spec_collaborators accept_all) (VStr ''todo'') (VRef 2) fresh_context
       = (Inl NotInitializedError, fresh_context)"
  by (simp add: update_uninitialized del_uninitialized fresh_context_def new_context_def demo_ids)

text \<open>
  Claim C8, amended: for a validator of ids that rejects null and undefined, update and del
  of an instance that is null or whose id is null or absent reject, with the validation
  error on an initialized context and with the not-initialized error otherwise; the state
  returned is the state the call started from, so nothing is written, no id is generated and
  the instance is not changed.
\<close>

theorem update_del_without_id_reject:
  assumes "\<not> isValidId d VUndefined" and "\<not> isValidId d VNull"
    and "isNull instance \<or> isNull (id_of (heap s) instance)"
  shows "update d t instance s
           = (Inl (if isInitialized s then ValidationError else NotInitializedError), s)
       \<and> del d t instance s
           = (Inl (if isInitialized s then ValidationError else NotInitializedError), s)"
  using assms
  by (simp add: update_uninitialized del_uninitialized update_without_id del_without_id)

text \<open>
  Claim C8, the amended statement on the initialized context and the record without an id.
\<close>

theorem update_del_without_id_reject_witness:
  "\<not> isValidId (spec_collaborators accept_all) VUndefined
   \<and> \<not> isValidId (spec_collaborators accept_all) VNull
   \<and> isNull (id_of (heap ready_context) (VRef 2))
   \<and> update (spec_collaborators accept_all) (VStr ''todo'') (VRef 2) ready_context
       = (Inl ValidationError, ready_context)
   \<and> del (spec_collaborators accept_all) (VStr ''todo'') (VRef 2) ready_context
       = (Inl ValidationError, ready_context)"
proof -
  have a: "\<not> isValidId (spec_collaborators accept_all) VUndefined"
    and b: "\<not> isValidId (spec_collaborators accept_all) VNull"
    by (simp_all add: spec_fields)
  have c: "isNull (VRef 2) \<or> isNull (id_of (heap ready_context) (VRef 2))"
    by (simp add: ready_fields demo_ids)
  show ?thesis
    using a b c update_del_without_id_reject[OF a b c, of "VStr ''todo''"]
    by (simp add: ready_fields)
qed

subsection \<open>C9\<close>

text \<open>
  Claim C9: on a context that is not initialized, purge with a query that is not an object
  (null included) rejects with the validation error, while insert, update and del reject with
  the not-initialized error whatever their arguments.
\<close>

theorem purge_validates_before_initialization:
  assumes "\<not> isInitialized s" and "\<not> is_object query"
  shows "purge d query forcePurge s = (Inl ValidationError, s)
       \<and> insert_instance d t i s = (Inl NotInitializedError, s)
       \<and> update d t i s = (Inl NotInitializedError, s)
       \<and> del d t i s = (Inl NotInitializedError, s)"
  using assms
  by (simp add: insert_uninitialized update_uninitialized del_uninitialized purge_invalid
        purge_arguments_valid_def)

text \<open>
  Claim C9 on a context just constructed, with a string for the query and null arguments
  for the other operations.
\<close>

theorem purge_validates_before_initialization_witness:
  "\<not> isInitialized fresh_context \<and> \<not> is_object (VStr ''todo'')
   \<and> purge (spec_collaborators accept_all) (VStr ''todo'') VUndefined fresh_context
       = (Inl ValidationError, fresh_context)
   \<and> insert_instance (spec_collaborators accept_all) VNull VNull fresh_context
       = (Inl NotInitializedError, fresh_context)
   \<and> update (spec_collaborators accept_all) VNull VNull fresh_context
       = (Inl NotInitializedError, fresh_context)
   \<and> del (spec_collaborators accept_all) VNull VNull fresh_context
       = (Inl NotInitializedError, fresh_context)"
proof -
  have h: "\<not> isInitialized fresh_context"
    by (simp add: fresh_context_def new_context_def)
  have q: "\<not> is_object (VStr ''todo'')" by simp
  show ?thesis
    using h q purge_validates_before_initialization[OF h q, where d = "spec_collaborators accept_all"
        and forcePurge = VUndefined and t = VNull and i = VNull]
    by simp
qed

subsection \<open>C10\<close>

text \<open>
  Claim C10, as stated: whenever \<^verbatim>\<open>instance.id\<close> is null, insert writes a generated id
  into the object passed in. It fails on a context that is not initialized: insert of the
  record without an id rejects with the not-initialized error, and afterwards the object
  still has no id.
\<close>

theorem insert_before_initialize_counterexample:
  "isNull (id_of (heap fresh_context) (VRef 2))
   \<and> insert_instance (spec_collaborators accept_all) (VStr ''todo'') (VRef 2) fresh_context
       = (Inl NotInitializedError, fresh_context)
   \<and> isNull (id_of (heap (snd (insert_instance (spec_collaborators accept_all) (VStr ''todo'')
                                 (VRef 2) fresh_context))) (VRef 2))"
  by (simp add: insert_uninitialized fresh_context_def new_context_def demo_ids)

text \<open>
  Claim C10, amended: on an initialized context, insert of an object whose id is null or
  absent leaves the heap as it was except for the object passed in, which now carries the
  generated id; when insert resolves, the value is the reference passed in.
\<close>

theorem insert_writes_id_into_argument:
  assumes "isInitialized s" and "isNull (id_of (heap s) (VRef r))"
  shows "heap (snd (insert_instance d t (VRef r) s))
           = (heap s)(r := AList.update ''id'' (VStr (fst (uuid_v4 d (world s)))) (heap s r))
       \<and> id_of (heap (snd (insert_instance d t (VRef r) s))) (VRef r)
           = VStr (fst (uuid_v4 d (world s)))
       \<and> (\<forall>v. fst (insert_instance d t (VRef r) s) = Inr v \<longrightarrow> v = VRef r)"
proof -
  let ?s = "with_uuid d r s"
  have 1: "insert_instance d t (VRef r) s = upsertWithLogging d t (VRef r) A_insert False ?s"
    using assms by (rule insert_without_id)
  have "heap (snd (upsertWithLogging d t (VRef r) A_insert False ?s)) = heap ?s"
    using preserves_upsertWithLogging[OF outside_heap_field, of d t "VRef r" A_insert False]
    by (simp add: preserves_def)
  then have h: "heap (snd (insert_instance d t (VRef r) s))
           = (heap s)(r := AList.update ''id'' (VStr (fst (uuid_v4 d (world s)))) (heap s r))"
    by (simp add: 1 with_uuid_def)
  have v: "\<forall>v. fst (insert_instance d t (VRef r) s) = Inr v \<longrightarrow> v = VRef r"
  proof (intro allI impI)
    fix v
    assume "fst (insert_instance d t (VRef r) s) = Inr v"
    then have "upsertWithLogging d t (VRef r) A_insert False ?s
                 = (Inr v, snd (upsertWithLogging d t (VRef r) A_insert False ?s))"
      by (simp add: 1 prod_eq_iff)
    from upsert_resolves[OF this] show "v = VRef r" by simp
  qed
  from h v show ?thesis by (simp add: id_of_def AList.update_conv')
qed

text \<open>
  Claim C10, the amended statement on the insert of the record at address 2 into the
  initialized context.
\<close>

theorem insert_writes_id_into_argument_witness:
  "isInitialized ready_context \<and> isNull (id_of (heap ready_context) (VRef 2))
   \<and> heap (snd (insert_instance (spec_collaborators accept_all) (VStr ''todo'') (VRef 2) ready_context)) 2
       = [(''text'', VStr ''a''), (''id'', VStr ''u'')]
   \<and> id_of (heap (snd (insert_instance (spec_collaborators accept_all) (VStr ''todo'') (VRef 2) ready_context))) (VRef 2)
       = VStr ''u''
   \<and> fst (insert_instance (spec_collaborators accept_all) (VStr ''todo'') (VRef 2) ready_context)
       = Inr (VRef 2)"
proof -
  have 1: "isInitialized ready_context" by (simp add: ready_fields)
  have 2: "isNull (id_of (heap ready_context) (VRef 2))" by (simp add: ready_fields demo_ids)
  have u: "fst (uuid_v4 (spec_collaborators accept_all) empty_world) = ''u''"
    by (simp add: spec_fields counting_uuid_def empty_world_def)
  have ok: "fst (insert_instance (spec_collaborators accept_all) (VStr ''todo'') (VRef 2) ready_context)
       = Inr (VRef 2)"
    by (simp add: stored_insert)
  have d: "demo_heap 2 = [(''text'', VStr ''a'')]" by (simp add: demo_heap_def)
  show ?thesis
    using 1 2 ok insert_writes_id_into_argument[OF 1 2, of "spec_collaborators accept_all" "VStr ''todo''"]
    by (simp add: u ready_fields d id_of_def)
qed

end
